theory Spec2Isabelle
  imports Main "HOL-Library.List_Lexorder" "HOL-Library.Char_ord"
begin

section \<open>The durable store\<close>

text \<open>
  \<^verbatim>\<open>app.py\<close> keeps its data in two PostgreSQL tables that it reaches through SQL text:
  \<^verbatim>\<open>csv_uploads (id, filename, csv_data, status)\<close> and \<^verbatim>\<open>processed_leads (id, ..., username, ...)\<close>.
  A table is the list of its rows. Text is a \<^typ>\<open>string\<close>; a column that SQL may leave
  \<^verbatim>\<open>NULL\<close> and that the program tests for it is an \<^typ>\<open>'a option\<close>. The statement
  \<^verbatim>\<open>INSERT INTO csv_uploads (filename, csv_data, status)\<close> gives no id, so the id comes from
  the table's sequence, kept in \<open>csv_uploads_id_seq\<close>.
\<close>

text \<open>Python values, as far as \<^verbatim>\<open>json.loads\<close> can produce them. Of a float only its
  truth value is kept.\<close>

datatype pyval =
    PNone
  | PBool bool
  | PInt int
  | PFloat bool
  | PStr string
  | PList "pyval list"
  | PDict "(string \<times> pyval) list"

text \<open>What the driver returns for a \<^verbatim>\<open>csv_data\<close> cell: a \<^verbatim>\<open>str\<close> from a text column, an
  already parsed object from a JSONB column (line 213 handles both).\<close>

datatype cell = Text string | Json pyval

record upload_row =
  u_id :: int
  filename :: string
  csv_data :: "cell option"
  status :: string

text \<open>A row of \<^verbatim>\<open>processed_leads\<close>. The columns \<^verbatim>\<open>qualified, reason, profile_link, bio,
  category, email, full_name\<close> are only displayed; they are kept together in \<open>descriptive\<close>.\<close>

record 'd lead_row =
  l_id :: int
  username :: "string option"
  descriptive :: 'd

record 'd database =
  csv_uploads :: "upload_row list"
  csv_uploads_id_seq :: int
  processed_leads :: "'d lead_row list"

subsection \<open>The SQL statements\<close>

text \<open>Line 105: \<^verbatim>\<open>SELECT 1 FROM csv_uploads WHERE filename = :filename LIMIT 1\<close>, read with
  \<^verbatim>\<open>scalar_one_or_none()\<close>.\<close>

definition check_sql :: "string \<Rightarrow> 'd database \<Rightarrow> int option" where
  "check_sql fn d = map_option (\<lambda>_. 1) (find (\<lambda>r. filename r = fn) (csv_uploads d))"

text \<open>Line 118: \<^verbatim>\<open>INSERT INTO csv_uploads (filename, csv_data, status)
  VALUES (:filename, :data, 'notstarted')\<close>.\<close>

definition insert_sql :: "string \<Rightarrow> string \<Rightarrow> 'd database \<Rightarrow> 'd database" where
  "insert_sql fn data d =
     d\<lparr>csv_uploads := csv_uploads d @
          [\<lparr>u_id = csv_uploads_id_seq d + 1, filename = fn,
            csv_data = Some (Text data), status = ''notstarted''\<rparr>],
       csv_uploads_id_seq := csv_uploads_id_seq d + 1\<rparr>"

text \<open>Line 140: \<^verbatim>\<open>SELECT id, filename, status FROM csv_uploads ORDER BY filename ASC\<close>.
  Rows with equal filenames keep their table order.\<close>

definition files_query :: "'d database \<Rightarrow> (int \<times> string \<times> string) list" where
  "files_query d =
     sort_key (\<lambda>(i, fn, s). fn) (map (\<lambda>r. (u_id r, filename r, status r)) (csv_uploads d))"

text \<open>Line 207: \<^verbatim>\<open>SELECT csv_data FROM csv_uploads WHERE id = :id\<close>.\<close>

definition fetch_sql :: "int \<Rightarrow> 'd database \<Rightarrow> cell option list" where
  "fetch_sql i d = map csv_data (filter (\<lambda>r. u_id r = i) (csv_uploads d))"

text \<open>Line 231: \<^verbatim>\<open>UPDATE csv_uploads SET status = 'inprogress' WHERE id = :id\<close>.\<close>

definition update_sql :: "int \<Rightarrow> 'd database \<Rightarrow> 'd database" where
  "update_sql i d =
     d\<lparr>csv_uploads :=
          map (\<lambda>r. if u_id r = i then r\<lparr>status := ''inprogress''\<rparr> else r) (csv_uploads d)\<rparr>"

text \<open>Line 258: \<^verbatim>\<open>SELECT COUNT(*) FROM processed_leads\<close>.\<close>

definition count_query :: "'d database \<Rightarrow> int" where
  "count_query d = int (length (processed_leads d))"

text \<open>SQL's \<^verbatim>\<open>=\<close> is true only of two values that are both present.\<close>

fun sql_eq :: "'a option \<Rightarrow> 'a option \<Rightarrow> bool" where
  "sql_eq (Some x) (Some y) = (x = y)"
| "sql_eq _ _ = False"

text \<open>Lines 273-278:
  \<^verbatim>\<open>DELETE FROM processed_leads T1 USING processed_leads T2
  WHERE T1.id > T2.id AND T1.username = T2.username\<close>.
  A row \<open>T1\<close> is deleted when the join gives it a partner \<open>T2\<close>; \<open>rowcount\<close> is the number of
  rows deleted.\<close>

definition superseded :: "'d lead_row list \<Rightarrow> 'd lead_row \<Rightarrow> bool" where
  "superseded rows t1 =
     (\<exists>t2 \<in> set rows. l_id t1 > l_id t2 \<and> sql_eq (username t1) (username t2))"

definition dedupe_sql :: "'d database \<Rightarrow> nat \<times> 'd database" where
  "dedupe_sql d =
     (length (filter (superseded (processed_leads d)) (processed_leads d)),
      d\<lparr>processed_leads :=
           filter (\<lambda>t1. \<not> superseded (processed_leads d) t1) (processed_leads d)\<rparr>)"

text \<open>Lines 289-293: \<^verbatim>\<open>SELECT id, qualified, ..., full_name FROM processed_leads
  ORDER BY id DESC\<close>.\<close>

definition processed_query :: "'d database \<Rightarrow> 'd lead_row list" where
  "processed_query d = rev (sort_key l_id (processed_leads d))"

text \<open>SQLAlchemy's \<^verbatim>\<open>scalar_one_or_none()\<close>: the one value, \<^verbatim>\<open>None\<close> for no row, an exception
  for more than one row.\<close>

datatype exn =
    OperationalError
  | MultipleResultsFound
  | UnicodeDecodeError
  | JSONDecodeError
  | AttributeError
  | UnboundLocalError
  | RequestException
  | OtherError

fun scalar_one_or_none :: "'a option list \<Rightarrow> exn + 'a option" where
  "scalar_one_or_none [] = Inr None"
| "scalar_one_or_none [x] = Inr x"
| "scalar_one_or_none _ = Inl MultipleResultsFound"

section \<open>Python values and library calls\<close>

text \<open>Truth value of a Python object, as \<^verbatim>\<open>if x:\<close> takes it.\<close>

fun truthy :: "pyval \<Rightarrow> bool" where
  "truthy PNone = False"
| "truthy (PBool b) = b"
| "truthy (PInt n) = (n \<noteq> 0)"
| "truthy (PFloat nz) = nz"
| "truthy (PStr s) = (s \<noteq> [])"
| "truthy (PList xs) = (xs \<noteq> [])"
| "truthy (PDict kvs) = (kvs \<noteq> [])"

text \<open>\<^verbatim>\<open>x.get(key)\<close>: only a dict has the method; on anything else Python raises
  \<^verbatim>\<open>AttributeError\<close>, here \<open>None\<close>. A missing key gives Python's \<^verbatim>\<open>None\<close>.\<close>

fun py_get :: "pyval \<Rightarrow> string \<Rightarrow> pyval option" where
  "py_get (PDict kvs) k = Some (case map_of kvs k of None \<Rightarrow> PNone | Some v \<Rightarrow> v)"
| "py_get _ k = None"

text \<open>\<^verbatim>\<open>filenames.index(x)\<close> for an \<open>x\<close> that is in the list.\<close>

fun list_index :: "'a list \<Rightarrow> 'a \<Rightarrow> nat" where
  "list_index [] x = 0"
| "list_index (y # ys) x = (if x = y then 0 else Suc (list_index ys x))"

text \<open>The secrets of \<^verbatim>\<open>st.secrets\<close> and the two functions of Python's \<^verbatim>\<open>json\<close> module that
  the program calls. The module is not part of the program, so both functions are
  parameters; \<^verbatim>\<open>json.loads\<close> returns the exception it raises as \<open>Inl\<close>.\<close>

record env =
  credentials_username :: string
  credentials_password :: string
  workflow_url :: string
  json_dumps :: "pyval \<Rightarrow> string"
  json_loads :: "string \<Rightarrow> exn + pyval"

text \<open>The request that line 226 hands to \<^verbatim>\<open>requests.post\<close>: the body is the UTF-8 encoding
  of \<open>data\<close>, the header \<^verbatim>\<open>x-id\<close> is \<^verbatim>\<open>str\<close> of \<open>x_id\<close>.\<close>

record request =
  url :: string
  data :: string
  content_type :: string
  x_id :: int

datatype post_result = Post_raises | Response int string

text \<open>What \<^verbatim>\<open>st.file_uploader\<close> returns: the file's name, whether \<^verbatim>\<open>pd.read_csv\<close>
  reads it, and \<^verbatim>\<open>getvalue().decode("utf-8")\<close> (\<open>None\<close> when that raises).\<close>

record uploaded_file =
  name :: string
  read_csv_ok :: bool
  decoded :: "string option"

datatype db_call =
    Check_filename | Insert_upload | List_files | Fetch_csv | Update_status
  | Count_leads | Dedupe_leads | List_leads

text \<open>Everything one run of the script receives from outside: the widgets' values, for each
  database call whether it fails, and the answer of the external endpoint.\<close>

record inputs =
  username_input :: string
  password_input :: string
  login_button :: bool
  csv_uploader :: "uploaded_file option"
  save_button :: bool
  file_selector :: "string option"
  process_button :: bool
  dedupe_button :: bool
  dedupe_confirm_button :: bool
  db_fails :: "db_call \<Rightarrow> bool"
  post :: "request \<Rightarrow> post_result"

record session_state =
  logged_in :: bool
  selected_filename :: "string option"
  uploaded_file_object :: "uploaded_file option"

text \<open>What a run shows, one constructor for each \<^verbatim>\<open>st.error\<close>, \<^verbatim>\<open>st.warning\<close>,
  \<^verbatim>\<open>st.success\<close>, \<^verbatim>\<open>st.caption\<close> and data display of the script, with the values its text
  interpolates. Titles, headers and dividers are left out.\<close>

datatype 'd display =
    Error_invalid_credentials
  | Error_reading_csv
  | Dataframe_upload
  | Error_duplicate_filename string
  | Success_saved string
  | Error_saving exn
  | Error_db_read exn
  | Selectbox "string list" nat
  | Markdown_status string string int
  | Warning_details_unavailable
  | Caption_no_files_for_selection
  | Caption_no_uploaded_files
  | Error_parse exn
  | Error_no_csv_data int
  | Success_sent "string option" int
  | Error_processing "string option" exn
  | Warning_cannot_process "string option" "string option"
  | Caption_cannot_process "string option" "string option"
  | Caption_select_file
  | Caption_upload_first
  | Metric int
  | Error_count exn
  | Warning_dedupe_confirm
  | Success_dedupe nat
  | Error_dedupe exn
  | Dataframe_leads "'d lead_row list"
  | Caption_no_leads

text \<open>The state of a run: the store, the session, what was shown so far, the requests handed
  to \<^verbatim>\<open>requests.post\<close> so far, and whether \<^verbatim>\<open>st.rerun()\<close> has ended the run.\<close>

record 'd run =
  db :: "'d database"
  session :: session_state
  out :: "'d display list"
  posted :: "request list"
  rerun :: bool

definition say :: "'d display \<Rightarrow> 'd run \<Rightarrow> 'd run" where
  "say x r = r\<lparr>out := out r @ [x]\<rparr>"

text \<open>\<^verbatim>\<open>try: ... except Exception as e: st.error(...)\<close>. The body returns the exception it
  raised, if any, with the state at that moment.\<close>

definition try_except :: "(exn \<Rightarrow> 'd display) \<Rightarrow> exn option \<times> 'd run \<Rightarrow> 'd run" where
  "try_except handler res = (case res of (None, r) \<Rightarrow> r | (Some e, r) \<Rightarrow> say (handler e) r)"

text \<open>\<^verbatim>\<open>st.button(..., disabled=d)\<close>: a disabled button is never reported as clicked.\<close>

definition st_button :: "bool \<Rightarrow> bool \<Rightarrow> bool" where
  "st_button disabled clicked = (clicked \<and> \<not> disabled)"

text \<open>\<^verbatim>\<open>st.selectbox(label, options, index)\<close>: the user's choice when it is one of the
  options, the option at \<open>index\<close> otherwise.\<close>

definition st_selectbox :: "string list \<Rightarrow> nat \<Rightarrow> string option \<Rightarrow> string" where
  "st_selectbox options i choice =
     (case choice of
        Some c \<Rightarrow> if c \<in> set options then c else options ! i
      | None \<Rightarrow> options ! i)"

section \<open>The script\<close>

subsection \<open>Helper functions (lines 16-53)\<close>

text \<open>\<^verbatim>\<open>load_csv\<close>: the Boolean says whether a frame is returned.\<close>

definition load_csv :: "inputs \<Rightarrow> 'd run \<Rightarrow> bool \<times> 'd run" where
  "load_csv inp r =
     (case csv_uploader inp of
        Some f \<Rightarrow>
          (let r1 = r\<lparr>session := (session r)\<lparr>uploaded_file_object := Some f\<rparr>\<rparr>
           in if read_csv_ok f then (True, r1)
              else (False, (say Error_reading_csv r1)
                     \<lparr>session := (session r1)\<lparr>uploaded_file_object := None\<rparr>\<rparr>))
      | None \<Rightarrow> (False, r\<lparr>session := (session r)\<lparr>uploaded_file_object := None\<rparr>\<rparr>))"

text \<open>\<^verbatim>\<open>read_from_postgres\<close>: the frame, or \<^verbatim>\<open>None\<close> after showing the error.\<close>

definition read_from_postgres ::
  "inputs \<Rightarrow> db_call \<Rightarrow> ('d database \<Rightarrow> 'a) \<Rightarrow> 'd run \<Rightarrow> 'a option \<times> 'd run" where
  "read_from_postgres inp c query r =
     (if db_fails inp c then (None, say (Error_db_read OperationalError) r)
      else (Some (query (db r)), r))"

definition get_status_color :: "string \<Rightarrow> string" where
  "get_status_color s =
     (if s = ''inprogress'' then ''blue''
      else if s = ''complete'' then ''green''
      else if s = ''notstarted'' then ''gray''
      else ''orange'')"

subsection \<open>Login (lines 59-75)\<close>

definition login :: "env \<Rightarrow> inputs \<Rightarrow> 'd run \<Rightarrow> 'd run" where
  "login env inp r =
     (if st_button False (login_button inp) then
        (if username_input inp = credentials_username env
            \<and> password_input inp = credentials_password env
         then r\<lparr>session := (session r)\<lparr>logged_in := True\<rparr>, rerun := True\<rparr>
         else say Error_invalid_credentials r)
      else r)"

subsection \<open>CSV upload and save (lines 90-126)\<close>

text \<open>The body of the \<^verbatim>\<open>try\<close> of lines 99-124.\<close>

definition save_csv :: "env \<Rightarrow> inputs \<Rightarrow> uploaded_file \<Rightarrow> 'd run \<Rightarrow> exn option \<times> 'd run" where
  "save_csv env inp file_to_save r =
     (if db_fails inp Check_filename then (Some OperationalError, r)
      else case check_sql (name file_to_save) (db r) of
        Some _ \<Rightarrow> (None, say (Error_duplicate_filename (name file_to_save)) r)
      | None \<Rightarrow>
          (case decoded file_to_save of
             None \<Rightarrow> (Some UnicodeDecodeError, r)
           | Some csv_text \<Rightarrow>
               (let json_payload = json_dumps env (PDict [(''csv_content'', PStr csv_text)])
                in if db_fails inp Insert_upload then (Some OperationalError, r)
                   else (None,
                     (say (Success_saved (name file_to_save))
                        (r\<lparr>db := insert_sql (name file_to_save) json_payload (db r)\<rparr>))
                     \<lparr>session := (session r)\<lparr>uploaded_file_object := None\<rparr>,
                      rerun := True\<rparr>))))"

definition csv_upload :: "env \<Rightarrow> inputs \<Rightarrow> 'd run \<Rightarrow> 'd run" where
  "csv_upload env inp r =
     (case load_csv inp r of
        (False, r1) \<Rightarrow> r1
      | (True, r1) \<Rightarrow>
          (let r2 = say Dataframe_upload r1
           in case uploaded_file_object (session r2) of
                None \<Rightarrow> r2
              | Some f \<Rightarrow>
                  if st_button False (save_button inp)
                  then try_except Error_saving (save_csv env inp f r2)
                  else r2))"

subsection \<open>File selection (lines 130-195)\<close>

text \<open>The local variables that the rest of the run reads. \<open>selected\<close> is the local
  \<^verbatim>\<open>selected_filename\<close>; a variable that is not bound yet reads as \<open>None\<close>, which no
  path of the script distinguishes (the button of line 200 is disabled on those paths).\<close>

record selection =
  files_df :: "(int \<times> string \<times> string) list option"
  selected :: "string option"
  selected_file_id :: "int option"
  selected_file_status :: "string option"
  process_button_disabled :: bool

definition no_selection :: "(int \<times> string \<times> string) list option \<Rightarrow> selection" where
  "no_selection df =
     \<lparr>files_df = df, selected = None, selected_file_id = None,
      selected_file_status = None, process_button_disabled = True\<rparr>"

text \<open>Lines 177-188: id and status of the selected file, from the listing.\<close>

definition file_details ::
  "(int \<times> string \<times> string) list \<Rightarrow> string \<Rightarrow> 'd run \<Rightarrow> selection \<times> 'd run" where
  "file_details df sel r =
     (case filter (\<lambda>(i, fn, s). fn = sel) df of
        [] \<Rightarrow>
          (\<lparr>files_df = Some df, selected = Some sel,
            selected_file_id = None, selected_file_status = None,
            process_button_disabled = True\<rparr>,
           say Warning_details_unavailable r)
      | (i, fn, s) # _ \<Rightarrow>
          (\<lparr>files_df = Some df, selected = Some sel,
            selected_file_id = Some i, selected_file_status = Some s,
            process_button_disabled = (s \<noteq> ''notstarted'')\<rparr>,
           say (Markdown_status (get_status_color s) s i) r))"

text \<open>Lines 148-151: \<^verbatim>\<open>Initialize or validate selected_filename in session state\<close>.\<close>

definition validate_selection :: "string list \<Rightarrow> session_state \<Rightarrow> session_state" where
  "validate_selection filenames s =
     (if (case selected_filename s of Some c \<Rightarrow> c \<in> set filenames | None \<Rightarrow> False)
      then s
      else s\<lparr>selected_filename := Some (hd filenames)\<rparr>)"

text \<open>Lines 154-158: the index for the select box.\<close>

definition current_index :: "string list \<Rightarrow> string \<Rightarrow> nat" where
  "current_index filenames sel =
     (if sel \<in> set filenames then list_index filenames sel else 0)"

text \<open>Lines 146-191, for a listing that is not empty.\<close>

definition choose_file ::
  "(int \<times> string \<times> string) list \<Rightarrow> inputs \<Rightarrow> 'd run \<Rightarrow> selection \<times> 'd run" where
  "choose_file df inp r =
     (let filenames = map (\<lambda>(i, fn, s). fn) df;
          s1 = validate_selection filenames (session r);
          r1 = r\<lparr>session := s1\<rparr>
      in case selected_filename s1 of
           None \<Rightarrow> (no_selection (Some df), say Caption_no_files_for_selection r1)
         | Some sel \<Rightarrow>
             if sel = [] then
               (no_selection (Some df), say Caption_no_files_for_selection r1)
             else
               (let i = current_index filenames sel;
                    r2 = say (Selectbox filenames i) r1;
                    from_box = st_selectbox filenames i (file_selector inp)
                in if from_box \<noteq> sel then
                     (no_selection (Some df),
                      r2\<lparr>session := s1\<lparr>selected_filename := Some from_box\<rparr>,
                         rerun := True\<rparr>)
                   else file_details df sel r2))"

definition select_file :: "inputs \<Rightarrow> 'd run \<Rightarrow> selection \<times> 'd run" where
  "select_file inp r0 =
     (case read_from_postgres inp List_files files_query r0 of
        (None, r) \<Rightarrow> (no_selection None, say Caption_no_uploaded_files r)
      | (Some df, r) \<Rightarrow>
          if df = [] then (no_selection (Some []), say Caption_no_uploaded_files r)
          else choose_file df inp r)"

subsection \<open>Process Leads (lines 197-249)\<close>

text \<open>Lines 209-218: from the fetched cell to \<^verbatim>\<open>csv_data_text\<close>, which starts as \<^verbatim>\<open>None\<close>.
  The inner \<^verbatim>\<open>except\<close> catches \<^verbatim>\<open>JSONDecodeError\<close> and \<^verbatim>\<open>AttributeError\<close> only.\<close>

definition parse_csv_data :: "env \<Rightarrow> cell \<Rightarrow> 'd run \<Rightarrow> exn option \<times> pyval \<times> 'd run" where
  "parse_csv_data env result r =
     (case (case result of Text s \<Rightarrow> json_loads env s | Json v \<Rightarrow> Inr v) of
        Inl e \<Rightarrow>
          if e = JSONDecodeError \<or> e = AttributeError
          then (None, PNone, say (Error_parse e) r)
          else (Some e, PNone, r)
      | Inr csv_data_json \<Rightarrow>
          (case py_get csv_data_json ''csv_content'' of
             None \<Rightarrow> (None, PNone, say (Error_parse AttributeError) r)
           | Some v \<Rightarrow> (None, v, r)))"

definition read_csv_data ::
  "env \<Rightarrow> int \<Rightarrow> cell option \<Rightarrow> 'd run \<Rightarrow> exn option \<times> pyval \<times> 'd run" where
  "read_csv_data env i result r =
     (case result of
        None \<Rightarrow> (None, PNone, say (Error_no_csv_data i) r)
      | Some c \<Rightarrow>
          if (case c of Text s \<Rightarrow> s \<noteq> [] | Json v \<Rightarrow> truthy v)
          then parse_csv_data env c r
          else (None, PNone, say (Error_no_csv_data i) r))"

text \<open>Lines 220-237. The \<^verbatim>\<open>else\<close> of line 236 belongs to \<^verbatim>\<open>if csv_data_text:\<close> of line 220:
  it runs when no text was found, and reading \<^verbatim>\<open>response\<close> there raises
  \<^verbatim>\<open>UnboundLocalError\<close> before anything is shown. A response other than 200 falls through
  line 228 with nothing shown. \<^verbatim>\<open>.encode\<close> exists on a \<^verbatim>\<open>str\<close> only.\<close>

definition send_csv ::
  "env \<Rightarrow> inputs \<Rightarrow> int \<Rightarrow> string option \<Rightarrow> pyval \<Rightarrow> 'd run \<Rightarrow> exn option \<times> 'd run" where
  "send_csv env inp i fn csv_data_text r =
     (if truthy csv_data_text then
        (case csv_data_text of
           PStr s \<Rightarrow>
             (let req = \<lparr>url = workflow_url env, data = s,
                         content_type = ''text/csv'', x_id = i\<rparr>;
                  r1 = r\<lparr>posted := posted r @ [req]\<rparr>
              in case post inp req of
                   Post_raises \<Rightarrow> (Some RequestException, r1)
                 | Response status_code text \<Rightarrow>
                     if status_code = 200 then
                       (if db_fails inp Update_status then (Some OperationalError, r1)
                        else (None,
                          (say (Success_sent fn i) (r1\<lparr>db := update_sql i (db r1)\<rparr>))
                          \<lparr>rerun := True\<rparr>))
                     else (None, r1))
         | _ \<Rightarrow> (Some AttributeError, r))
      else (Some UnboundLocalError, r))"

text \<open>The body of the \<^verbatim>\<open>try\<close> of lines 203-237.\<close>

definition fetch_and_send ::
  "env \<Rightarrow> inputs \<Rightarrow> int \<Rightarrow> string option \<Rightarrow> 'd run \<Rightarrow> exn option \<times> 'd run" where
  "fetch_and_send env inp i fn r =
     (if db_fails inp Fetch_csv then (Some OperationalError, r)
      else case scalar_one_or_none (fetch_sql i (db r)) of
        Inl e \<Rightarrow> (Some e, r)
      | Inr result \<Rightarrow>
          (case read_csv_data env i result r of
             (Some e, _, r1) \<Rightarrow> (Some e, r1)
           | (None, csv_data_text, r1) \<Rightarrow> send_csv env inp i fn csv_data_text r1))"

text \<open>Lines 201-241: what a click on the button runs.\<close>

definition process_clicked :: "env \<Rightarrow> inputs \<Rightarrow> selection \<Rightarrow> 'd run \<Rightarrow> 'd run" where
  "process_clicked env inp sel r =
     (case selected_file_id sel of
        Some i \<Rightarrow>
          if selected_file_status sel = Some ''notstarted''
          then try_except (Error_processing (selected sel))
                 (fetch_and_send env inp i (selected sel) r)
          else say (Warning_cannot_process (selected sel) (selected_file_status sel)) r
      | None \<Rightarrow> say (Warning_cannot_process (selected sel) (selected_file_status sel)) r)"

definition process_leads :: "env \<Rightarrow> inputs \<Rightarrow> selection \<Rightarrow> 'd run \<Rightarrow> 'd run" where
  "process_leads env inp sel r =
     (if st_button (process_button_disabled sel) (process_button inp)
      then process_clicked env inp sel r
      else r)"

text \<open>Lines 243-249.\<close>

definition captions :: "selection \<Rightarrow> 'd run \<Rightarrow> 'd run" where
  "captions sel r =
     (let has_name = (case selected sel of Some n \<Rightarrow> n \<noteq> [] | None \<Rightarrow> False);
          empty_df = (case files_df sel of Some df \<Rightarrow> df = [] | None \<Rightarrow> True)
      in if process_button_disabled sel \<and> has_name
         then say (Caption_cannot_process (selected sel) (selected_file_status sel)) r
         else if \<not> has_name \<and> \<not> empty_df then say Caption_select_file r
         else if empty_df then say Caption_upload_first r
         else r)"

subsection \<open>Processed leads (lines 252-305)\<close>

definition show_count :: "inputs \<Rightarrow> 'd run \<Rightarrow> 'd run" where
  "show_count inp r =
     (if db_fails inp Count_leads then say (Error_count OperationalError) r
      else say (Metric (count_query (db r))) r)"

text \<open>Lines 269-285: the two nested buttons and the \<^verbatim>\<open>DELETE\<close>.\<close>

definition deduplicate :: "inputs \<Rightarrow> 'd run \<Rightarrow> 'd run" where
  "deduplicate inp r =
     (if st_button False (dedupe_button inp) then
        (let r1 = say Warning_dedupe_confirm r
         in if st_button False (dedupe_confirm_button inp) then
              try_except Error_dedupe
                (if db_fails inp Dedupe_leads then (Some OperationalError, r1)
                 else (case dedupe_sql (db r1) of
                         (rowcount, d) \<Rightarrow>
                           (None, (say (Success_dedupe rowcount) (r1\<lparr>db := d\<rparr>))
                                    \<lparr>rerun := True\<rparr>)))
            else r1)
      else r)"

definition show_processed :: "inputs \<Rightarrow> 'd run \<Rightarrow> 'd run" where
  "show_processed inp r =
     (case read_from_postgres inp List_leads processed_query r of
        (None, r1) \<Rightarrow> r1
      | (Some df_processed, r1) \<Rightarrow>
          if df_processed \<noteq> [] then say (Dataframe_leads df_processed) r1
          else say Caption_no_leads r1)"

subsection \<open>\<^verbatim>\<open>main\<close>\<close>

text \<open>\<^verbatim>\<open>st.rerun()\<close> ends the run where it is called; the parts below it do not run.
  Lines 130-249, from the listing of the files to the captions under the button:\<close>

definition file_processing :: "env \<Rightarrow> inputs \<Rightarrow> 'd run \<Rightarrow> 'd run" where
  "file_processing env inp r1 =
     (case select_file inp r1 of (sel, r2) \<Rightarrow>
      if rerun r2 then r2 else
      let r3 = process_leads env inp sel r2 in
      if rerun r3 then r3 else
      captions sel r3)"

text \<open>Lines 252-305, the second tab:\<close>

definition processed_leads_tab :: "inputs \<Rightarrow> 'd run \<Rightarrow> 'd run" where
  "processed_leads_tab inp r =
     (let r1 = deduplicate inp (show_count inp r) in
      if rerun r1 then r1 else
      show_processed inp r1)"

definition logged_in_part :: "env \<Rightarrow> inputs \<Rightarrow> 'd run \<Rightarrow> 'd run" where
  "logged_in_part env inp r0 =
     (let r1 = csv_upload env inp r0 in
      if rerun r1 then r1 else
      let r2 = file_processing env inp r1 in
      if rerun r2 then r2 else
      processed_leads_tab inp r2)"

definition main :: "env \<Rightarrow> inputs \<Rightarrow> 'd run \<Rightarrow> 'd run" where
  "main env inp r =
     (if \<not> logged_in (session r) then login env inp r else logged_in_part env inp r)"

text \<open>One run of the script starts with nothing shown; the session and the store are what
  the run before left. \<open>runs\<close> is any number of runs, one after the other.\<close>

definition script_run ::
  "env \<Rightarrow> inputs \<Rightarrow> session_state \<times> 'd database \<Rightarrow> 'd run" where
  "script_run env inp sd =
     main env inp \<lparr>db = snd sd, session = fst sd, out = [], posted = [], rerun = False\<rparr>"

fun runs :: "env \<Rightarrow> inputs list \<Rightarrow> session_state \<times> 'd database \<Rightarrow> session_state \<times> 'd database" where
  "runs env [] sd = sd"
| "runs env (inp # inps) sd =
     runs env inps (let r = script_run env inp sd in (session r, db r))"

section \<open>Terms of the claims\<close>

text \<open>The specification's \<open>dispatch(batch)\<close> is, in the script, a run in which the batch's
  file is the selected one and the button of line 200 is pressed. \<open>has_selected\<close> says that
  batch \<open>b\<close> is the selected one: it is in the table, its filename is not empty and names no
  other row, the session and the select box hold that filename, and the listing query
  answers.\<close>

definition has_selected :: "inputs \<Rightarrow> 'd run \<Rightarrow> upload_row \<Rightarrow> bool" where
  "has_selected inp r b =
     (b \<in> set (csv_uploads (db r)) \<and> filename b \<noteq> []
      \<and> (\<forall>b' \<in> set (csv_uploads (db r)). filename b' = filename b \<longrightarrow> b' = b)
      \<and> selected_filename (session r) = Some (filename b)
      \<and> (file_selector inp = None \<or> file_selector inp = Some (filename b))
      \<and> \<not> db_fails inp List_files \<and> \<not> rerun r)"

text \<open>What lines 161 and 183 show for the selected batch.\<close>

definition shown :: "upload_row \<Rightarrow> 'd run \<Rightarrow> 'd run" where
  "shown b r =
     say (Markdown_status (get_status_color (status b)) (status b) (u_id b))
       (say (Selectbox (map (\<lambda>(i, fn, s). fn) (files_query (db r)))
               (list_index (map (\<lambda>(i, fn, s). fn) (files_query (db r))) (filename b))) r)"

text \<open>The object that line 114 writes for a payload text, and the request of line 226 for
  a batch id and a text.\<close>

definition csv_object :: "string \<Rightarrow> pyval" where
  "csv_object p = PDict [(''csv_content'', PStr p)]"

definition request_for :: "env \<Rightarrow> int \<Rightarrow> string \<Rightarrow> request" where
  "request_for env i p =
     \<lparr>url = workflow_url env, data = p, content_type = ''text/csv'', x_id = i\<rparr>"

text \<open>Batch \<open>b\<close> holds what line 114 wrote for the text \<open>p\<close>, and the \<^verbatim>\<open>json\<close> module in use
  reads that document back: \<^verbatim>\<open>json.dumps\<close> never returns the empty string, and
  \<^verbatim>\<open>json.loads(json.dumps(x)) == x\<close> for a dict of one string.\<close>

definition stored_payload :: "env \<Rightarrow> upload_row \<Rightarrow> string \<Rightarrow> bool" where
  "stored_payload env b p =
     (csv_data b = Some (Text (json_dumps env (csv_object p)))
      \<and> json_dumps env (csv_object p) \<noteq> []
      \<and> json_loads env (json_dumps env (csv_object p)) = Inr (csv_object p))"

text \<open>The statuses of the lifecycle in their order; any other text has no rank.\<close>

definition status_rank :: "string \<Rightarrow> nat option" where
  "status_rank s =
     (if s = ''notstarted'' then Some 0
      else if s = ''inprogress'' then Some 1
      else if s = ''complete'' then Some 2
      else None)"

text \<open>The state in which the next run of the script starts.\<close>

definition next_run :: "'d run \<Rightarrow> 'd run" where
  "next_run r = \<lparr>db = db r, session = session r, out = [], posted = [], rerun = False\<rparr>"

text \<open>A table of batches as the store keeps it: the ids are pairwise different and were
  all drawn from the sequence.\<close>

definition well_formed :: "'d database \<Rightarrow> bool" where
  "well_formed d =
     (distinct (map u_id (csv_uploads d))
      \<and> list_all (\<lambda>b. u_id b \<le> csv_uploads_id_seq d) (csv_uploads d))"

text \<open>A batch before and after: the same id, filename and payload, and a status that
  stayed or went from \<^verbatim>\<open>notstarted\<close> to \<^verbatim>\<open>inprogress\<close>.\<close>

definition row_step :: "upload_row \<Rightarrow> upload_row \<Rightarrow> bool" where
  "row_step a b =
     (u_id b = u_id a \<and> filename b = filename a \<and> csv_data b = csv_data a
      \<and> (status b = status a \<or> status a = ''notstarted'' \<and> status b = ''inprogress''))"

definition evolves :: "'d database \<Rightarrow> 'd database \<Rightarrow> bool" where
  "evolves d d' =
     (well_formed d' \<and> length (csv_uploads d) \<le> length (csv_uploads d')
      \<and> list_all2 row_step (csv_uploads d) (take (length (csv_uploads d)) (csv_uploads d')))"

section \<open>Example inputs\<close>

text \<open>A run in which no widget is used, the store answers and the endpoint returns 200;
  a run state of a logged-in session over a given store; the four result records of the
  specification's deduplication example.\<close>

definition idle :: inputs where
  "idle = \<lparr>username_input = [], password_input = [], login_button = False,
           csv_uploader = None, save_button = False, file_selector = None,
           process_button = False, dedupe_button = False, dedupe_confirm_button = False,
           db_fails = (\<lambda>_. False), post = (\<lambda>_. Response 200 [])\<rparr>"

definition lead :: "int \<Rightarrow> string \<Rightarrow> unit lead_row" where
  "lead i k = \<lparr>l_id = i, username = Some k, descriptive = ()\<rparr>"

definition fresh_run :: "upload_row list \<Rightarrow> 'd lead_row list \<Rightarrow> 'd run" where
  "fresh_run ups leads =
     \<lparr>db = \<lparr>csv_uploads = ups, csv_uploads_id_seq = int (length ups), processed_leads = leads\<rparr>,
      session = \<lparr>logged_in = True, selected_filename = None, uploaded_file_object = None\<rparr>,
      out = [], posted = [], rerun = False\<rparr>"

definition four_leads :: "unit lead_row list" where
  "four_leads = [lead 1 ''A'', lead 2 ''A'', lead 3 ''B'', lead 4 ''A'']"

definition confirmed_dedupe :: inputs where
  "confirmed_dedupe = idle\<lparr>dedupe_button := True, dedupe_confirm_button := True\<rparr>"

definition upload :: "int \<Rightarrow> string \<Rightarrow> string \<Rightarrow> string \<Rightarrow> upload_row" where
  "upload i fn payload st =
     \<lparr>u_id = i, filename = fn, csv_data = Some (Text payload), status = st\<rparr>"

definition one_complete :: "unit database" where
  "one_complete = \<lparr>csv_uploads = [upload 1 ''leads.csv'' ''x'' ''complete''],
                    csv_uploads_id_seq = 1, processed_leads = []\<rparr>"

text \<open>A stand-in for the \<^verbatim>\<open>json\<close> module in the examples: it writes and reads the one-field
  object of line 114 for texts that JSON writes without escapes (no quote, no backslash, no
  control character).\<close>

fun strip_prefix :: "string \<Rightarrow> string \<Rightarrow> string option" where
  "strip_prefix [] s = Some s"
| "strip_prefix (p # ps) [] = None"
| "strip_prefix (p # ps) (c # cs) = (if p = c then strip_prefix ps cs else None)"

definition plain_dumps :: "pyval \<Rightarrow> string" where
  \<open>plain_dumps v =
     (case v of
        PDict [(k, PStr s)] \<Rightarrow> ''{"'' @ k @ ''": "'' @ s @ ''"}''
      | _ \<Rightarrow> ''null'')\<close>

definition plain_loads :: "string \<Rightarrow> exn + pyval" where
  \<open>plain_loads t =
     (case strip_prefix ''{"'' t of
        None \<Rightarrow> Inl JSONDecodeError
      | Some t1 \<Rightarrow>
          (case strip_prefix ''": "'' (dropWhile (\<lambda>c. c \<noteq> CHR 0x22) t1) of
             None \<Rightarrow> Inl JSONDecodeError
           | Some t2 \<Rightarrow>
               if dropWhile (\<lambda>c. c \<noteq> CHR 0x22) t2 = ''"}''
               then Inr (PDict [(takeWhile (\<lambda>c. c \<noteq> CHR 0x22) t1,
                                 PStr (takeWhile (\<lambda>c. c \<noteq> CHR 0x22) t2))])
               else Inl JSONDecodeError))\<close>

definition example_env :: env where
  "example_env =
     \<lparr>credentials_username = ''admin'', credentials_password = ''secret'',
      workflow_url = ''https://n8n.example/webhook'',
      json_dumps = plain_dumps, json_loads = plain_loads\<rparr>"

definition leads_csv :: string where
  "leads_csv = plain_dumps (PDict [(''csv_content'', PStr ''name,handle'')])"

text \<open>A logged-in session with \<^verbatim>\<open>leads.csv\<close> registered, not yet started and selected; the
  button of line 200 pressed; an endpoint that answers 500.\<close>

definition leads_row :: upload_row where
  "leads_row = upload 1 ''leads.csv'' leads_csv ''notstarted''"

definition leads_run :: "unit run" where
  "leads_run =
     \<lparr>db = \<lparr>csv_uploads = [leads_row], csv_uploads_id_seq = 1, processed_leads = []\<rparr>,
      session = \<lparr>logged_in = True, selected_filename = Some ''leads.csv'',
                 uploaded_file_object = None\<rparr>,
      out = [], posted = [], rerun = False\<rparr>"

definition press_process :: inputs where
  "press_process = idle\<lparr>process_button := True\<rparr>"

definition endpoint_500 :: inputs where
  "endpoint_500 = press_process\<lparr>post := (\<lambda>_. Response 500 ''Internal Server Error'')\<rparr>"

text \<open>The same session after the batch was sent: its status is \<^verbatim>\<open>inprogress\<close>.\<close>

definition sent_row :: upload_row where
  "sent_row = upload 1 ''leads.csv'' leads_csv ''inprogress''"

definition sent_run :: "unit run" where
  "sent_run = leads_run\<lparr>db := (db leads_run)\<lparr>csv_uploads := [sent_row]\<rparr>\<rparr>"

text \<open>Local variables of line 200 that name a batch 7, which no table of the examples
  holds.\<close>

definition stale_selection :: selection where
  "stale_selection =
     \<lparr>files_df = Some [(7, ''gone.csv'', ''notstarted'')], selected = Some ''gone.csv'',
      selected_file_id = Some 7, selected_file_status = Some ''notstarted'',
      process_button_disabled = False\<rparr>"

text \<open>The upload of \<^verbatim>\<open>leads.csv\<close> with the button of line 98 pressed.\<close>

definition leads_file :: uploaded_file where
  "leads_file = \<lparr>name = ''leads.csv'', read_csv_ok = True, decoded = Some ''name,handle''\<rparr>"

definition save_leads :: inputs where
  "save_leads = idle\<lparr>csv_uploader := Some leads_file, save_button := True\<rparr>"

text \<open>Two batches, stored in the order \<^verbatim>\<open>b.csv\<close>, \<^verbatim>\<open>a.csv\<close>.\<close>

definition two_files :: "unit run" where
  "two_files =
     fresh_run [upload 1 ''b.csv'' leads_csv ''inprogress'',
                upload 2 ''a.csv'' leads_csv ''notstarted''] []"

text \<open>The same table once the batch is \<^verbatim>\<open>complete\<close>, as the enrichment service leaves it.\<close>

definition completed_row :: upload_row where
  "completed_row = upload 1 ''leads.csv'' leads_csv ''complete''"

definition completed_run :: "unit run" where
  "completed_run = leads_run\<lparr>db := (db leads_run)\<lparr>csv_uploads := [completed_row]\<rparr>\<rparr>"

section \<open>Selecting a file\<close>

lemma list_index_nth: "x \<in> set xs \<Longrightarrow> xs ! list_index xs x = x"
  by (induction xs) auto

lemma st_selectbox_same:
  "sel \<in> set options \<Longrightarrow> choice = None \<or> choice = Some sel \<Longrightarrow>
     st_selectbox options (list_index options sel) choice = sel"
  by (auto simp: st_selectbox_def list_index_nth)

lemma set_files_query:
  "set (files_query d) = (\<lambda>r. (u_id r, filename r, status r)) ` set (csv_uploads d)"
  by (simp add: files_query_def)

lemma files_query_Nil: "files_query d = [] \<longleftrightarrow> csv_uploads d = []"
  using set_files_query [of d] by (metis image_is_empty set_empty)

lemma run_simps [simp]:
  "db (say x r) = db r" "session (say x r) = session r" "posted (say x r) = posted r"
  "rerun (say x r) = rerun r" "out (say x r) = out r @ [x]"
  by (simp_all add: say_def)

lemma choose_file_selected:
  assumes sel: "selected_filename (session r) = Some fn" "fn \<noteq> []"
    and box: "file_selector inp = None \<or> file_selector inp = Some fn"
    and row: "filter (\<lambda>(i, f, s). f = fn) df = (i, f, s) # rest"
  shows "choose_file df inp r =
     (\<lparr>files_df = Some df, selected = Some fn, selected_file_id = Some i,
       selected_file_status = Some s, process_button_disabled = (s \<noteq> ''notstarted'')\<rparr>,
      say (Markdown_status (get_status_color s) s i)
        (say (Selectbox (map (\<lambda>(i, fn, s). fn) df)
                (list_index (map (\<lambda>(i, fn, s). fn) df) fn)) r))"
proof -
  let ?names = "map (\<lambda>(i, fn, s). fn) df"
  have "(i, f, s) \<in> set (filter (\<lambda>(i, f, s). f = fn) df)" by (simp add: row)
  then have "(i, f, s) \<in> set df" "f = fn" by auto
  then have mem: "fn \<in> set ?names" by force
  have same: "st_selectbox ?names (list_index ?names fn) (file_selector inp) = fn"
    using st_selectbox_same [OF mem box] .
  show ?thesis
    unfolding choose_file_def Let_def
    by (simp add: sel mem same row file_details_def validate_selection_def
        current_index_def del: set_map)
qed

lemma selected_row:
  assumes b: "b \<in> set (csv_uploads d)"
    and uniq: "\<forall>b' \<in> set (csv_uploads d). filename b' = filename b \<longrightarrow> b' = b"
  shows "\<exists>rest. filter (\<lambda>(i, f, s). f = filename b) (files_query d)
           = (u_id b, filename b, status b) # rest"
proof -
  let ?xs = "filter (\<lambda>(i, f, s). f = filename b) (files_query d)"
  have mem: "(u_id b, filename b, status b) \<in> set ?xs"
    using b by (auto simp: set_files_query)
  have all: "\<forall>x \<in> set ?xs. x = (u_id b, filename b, status b)"
    using uniq by (auto simp: set_files_query)
  show ?thesis
  proof (cases ?xs)
    case Nil
    with mem show ?thesis by simp
  next
    case (Cons x rest)
    then have "x = (u_id b, filename b, status b)" using all by simp
    with Cons show ?thesis by simp
  qed
qed

lemma select_file_selected:
  assumes "has_selected inp r b"
  shows "select_file inp r =
     (\<lparr>files_df = Some (files_query (db r)), selected = Some (filename b),
       selected_file_id = Some (u_id b), selected_file_status = Some (status b),
       process_button_disabled = (status b \<noteq> ''notstarted'')\<rparr>,
      shown b r)"
proof -
  from assms have b: "b \<in> set (csv_uploads (db r))" and ne: "filename b \<noteq> []"
    and uniq: "\<forall>b' \<in> set (csv_uploads (db r)). filename b' = filename b \<longrightarrow> b' = b"
    and sel: "selected_filename (session r) = Some (filename b)"
    and box: "file_selector inp = None \<or> file_selector inp = Some (filename b)"
    and up: "\<not> db_fails inp List_files"
    by (simp_all add: has_selected_def)
  obtain rest where row: "filter (\<lambda>(i, f, s). f = filename b) (files_query (db r))
           = (u_id b, filename b, status b) # rest"
    using selected_row [OF b uniq] by blast
  have nonempty: "files_query (db r) \<noteq> []"
    using b by (auto simp: files_query_Nil)
  show ?thesis
    unfolding select_file_def read_from_postgres_def shown_def
    using up nonempty by (simp add: choose_file_selected [OF sel ne box row])
qed

section \<open>Deduplication\<close>

lemma sql_eq_Some_iff: "sql_eq (Some k) u \<longleftrightarrow> u = Some k"
  by (cases u) auto

lemma sql_eq_Some_iff2: "sql_eq u (Some k) \<longleftrightarrow> u = Some k"
  by (cases u) auto

lemma sql_eq_None: "\<not> sql_eq None u"
  by simp

lemma dedupe_rowcount:
  "fst (dedupe_sql d) = length (processed_leads d) - length (processed_leads (snd (dedupe_sql d)))"
proof -
  have "length (filter P xs) + length (filter (\<lambda>x. \<not> P x) xs) = length xs"
    for P and xs :: "'b list"
    by (rule sum_length_filter_compl)
  from this [of "superseded (processed_leads d)" "processed_leads d"]
  show ?thesis by (simp add: dedupe_sql_def)
qed

lemma group_minimum:
  assumes "r \<in> set rows" and "username r = Some k"
  shows "\<exists>m\<in>set rows. username m = Some k \<and>
           (\<forall>x\<in>set rows. username x = Some k \<longrightarrow> l_id m \<le> l_id x)"
proof -
  let ?G = "{x \<in> set rows. username x = Some k}"
  have fin: "finite ?G" by simp
  have ne: "?G \<noteq> {}" using assms by auto
  obtain m where "m \<in> ?G" "\<forall>x\<in>?G. l_id m \<le> l_id x"
    by (metis (no_types, lifting) arg_min_least arg_min_if_finite(1) fin ne)
  then show ?thesis by auto
qed

lemma filter_only: "distinct xs \<Longrightarrow> m \<in> set xs \<Longrightarrow> filter (\<lambda>x. x = m) xs = [m]"
  by (induction xs) (auto simp: filter_empty_conv)

lemma minimum_not_superseded:
  assumes "username m = Some k"
    and "\<forall>x\<in>set rows. username x = Some k \<longrightarrow> l_id m \<le> l_id x"
  shows "\<not> superseded rows m"
  using assms by (auto simp: superseded_def sql_eq_Some_iff)

lemma kept_is_minimum:
  assumes d: "distinct (map l_id rows)"
    and m: "m \<in> set rows" "username m = Some k"
    and least: "\<forall>x\<in>set rows. username x = Some k \<longrightarrow> l_id m \<le> l_id x"
    and x: "x \<in> set rows" "username x = Some k" "\<not> superseded rows x"
  shows "x = m"
proof -
  have "\<not> l_id x > l_id m" using x m by (auto simp: superseded_def)
  moreover have "l_id m \<le> l_id x" using least x by auto
  ultimately have "l_id x = l_id m" by simp
  moreover have "inj_on l_id (set rows)" using d by (simp add: distinct_map)
  ultimately show ?thesis using x(1) m(1) by (auto dest: inj_onD)
qed

lemma kept_group:
  assumes d: "distinct (map l_id rows)"
    and m: "m \<in> set rows" "username m = Some k"
    and least: "\<forall>x\<in>set rows. username x = Some k \<longrightarrow> l_id m \<le> l_id x"
  shows "filter (\<lambda>x. username x = Some k) (filter (\<lambda>t1. \<not> superseded rows t1) rows) = [m]"
proof -
  have "filter (\<lambda>x. username x = Some k) (filter (\<lambda>t1. \<not> superseded rows t1) rows)
      = filter (\<lambda>x. x = m) rows"
    unfolding filter_filter
  proof (rule filter_cong [OF refl])
    fix x assume "x \<in> set rows"
    then show "(\<not> superseded rows x \<and> username x = Some k) = (x = m)"
      using kept_is_minimum [OF d m least, of x] minimum_not_superseded [OF m(2) least] m(2)
      by auto
  qed
  moreover have "distinct rows" using d by (simp add: distinct_map)
  ultimately show ?thesis using m(1) by (simp add: filter_only)
qed

lemma kept_unique:
  assumes d: "distinct (map l_id rows)"
    and x: "x \<in> set rows" "\<not> superseded rows x"
    and y: "y \<in> set rows" "\<not> superseded rows y"
    and k: "username x \<noteq> None" "username x = username y"
  shows "x = y"
proof -
  obtain k where kx: "username x = Some k" using k(1) by auto
  then have ky: "username y = Some k" using k(2) by simp
  obtain m where m: "m \<in> set rows" "username m = Some k"
    "\<forall>z\<in>set rows. username z = Some k \<longrightarrow> l_id m \<le> l_id z"
    using group_minimum [OF x(1) kx] by auto
  have "x = m" using kept_is_minimum [OF d m x(1) kx x(2)] .
  moreover have "y = m" using kept_is_minimum [OF d m y(1) ky y(2)] .
  ultimately show ?thesis by simp
qed

lemma deduplicate_confirmed:
  assumes "dedupe_button inp" "dedupe_confirm_button inp" "\<not> db_fails inp Dedupe_leads"
  shows "deduplicate inp r =
     (say (Success_dedupe (fst (dedupe_sql (db r))))
        ((say Warning_dedupe_confirm r)\<lparr>db := snd (dedupe_sql (db r))\<rparr>))\<lparr>rerun := True\<rparr>"
  using assms
  by (simp add: deduplicate_def st_button_def try_except_def say_def split: prod.splits)

lemma four_leads_superseded:
  "superseded four_leads (lead 1 ''A'') = False"
  "superseded four_leads (lead 2 ''A'') = True"
  "superseded four_leads (lead 3 ''B'') = False"
  "superseded four_leads (lead 4 ''A'') = True"
  by (simp_all add: superseded_def four_leads_def lead_def)

lemma four_leads_dedupe:
  "dedupe_sql \<lparr>csv_uploads = ups, csv_uploads_id_seq = n, processed_leads = four_leads\<rparr>
     = (2, \<lparr>csv_uploads = ups, csv_uploads_id_seq = n,
             processed_leads = [lead 1 ''A'', lead 3 ''B'']\<rparr>)"
proof -
  have "filter (superseded four_leads) four_leads = [lead 2 ''A'', lead 4 ''A'']"
    by (subst (2) four_leads_def) (simp add: four_leads_superseded)
  moreover have "filter (\<lambda>t. \<not> superseded four_leads t) four_leads = [lead 1 ''A'', lead 3 ''B'']"
    by (subst (2) four_leads_def) (simp add: four_leads_superseded)
  ultimately show ?thesis by (simp add: dedupe_sql_def)
qed

text \<open>
  Claim C2. With both buttons of lines 269-271 pressed and the store answering, the
  \<^verbatim>\<open>DELETE\<close> only removes rows; the number shown is the number of rows removed; for every
  user name that some row carries, the rows kept with that name are exactly one row, the one
  with the least id among the rows with that name; no two kept rows carry the same user name.
  The ids are those of a table, pairwise different. On the rows (1, A), (2, A), (3, B), (4, A)
  the rows kept are (1, A), (3, B) and the number shown is 2. A row without a user name
  (\<^verbatim>\<open>NULL\<close>) carries no identity key; SQL's equality never matches it.
\<close>

theorem deduplicate_keeps_earliest:
  assumes ids: "distinct (map l_id (processed_leads (db r)))"
    and click: "dedupe_button inp" "dedupe_confirm_button inp"
    and up: "\<not> db_fails inp Dedupe_leads"
  shows "set (processed_leads (db (deduplicate inp r))) \<subseteq> set (processed_leads (db r))
    \<and> out (deduplicate inp r) = out r @ [Warning_dedupe_confirm,
           Success_dedupe (length (processed_leads (db r))
                            - length (processed_leads (db (deduplicate inp r))))]
    \<and> (\<forall>k. (\<exists>x\<in>set (processed_leads (db r)). username x = Some k) \<longrightarrow>
           (\<exists>m\<in>set (processed_leads (db r)). username m = Some k
              \<and> (\<forall>x\<in>set (processed_leads (db r)). username x = Some k \<longrightarrow> l_id m \<le> l_id x)
              \<and> filter (\<lambda>x. username x = Some k) (processed_leads (db (deduplicate inp r))) = [m]))
    \<and> (\<forall>x\<in>set (processed_leads (db (deduplicate inp r))).
         \<forall>y\<in>set (processed_leads (db (deduplicate inp r))).
           username x \<noteq> None \<and> username x = username y \<longrightarrow> x = y)
    \<and> processed_leads (db (deduplicate confirmed_dedupe (fresh_run ups four_leads)))
           = [lead 1 ''A'', lead 3 ''B'']
    \<and> out (deduplicate confirmed_dedupe (fresh_run ups four_leads))
           = [Warning_dedupe_confirm, Success_dedupe 2]"
proof -
  let ?rows = "processed_leads (db r)"
  let ?r' = "deduplicate inp r"
  have r': "?r' = (say (Success_dedupe (fst (dedupe_sql (db r))))
        ((say Warning_dedupe_confirm r)\<lparr>db := snd (dedupe_sql (db r))\<rparr>))\<lparr>rerun := True\<rparr>"
    using deduplicate_confirmed [OF click up] .
  have kept: "processed_leads (db ?r') = filter (\<lambda>t1. \<not> superseded ?rows t1) ?rows"
    by (simp add: r' say_def dedupe_sql_def)
  have only_deletes: "set (processed_leads (db ?r')) \<subseteq> set ?rows"
    by (simp add: kept)
  have "fst (dedupe_sql (db r)) = length ?rows - length (processed_leads (db ?r'))"
    using dedupe_rowcount [of "db r"] by (simp add: r' say_def)
  then have reported: "out ?r' = out r @ [Warning_dedupe_confirm,
           Success_dedupe (length ?rows - length (processed_leads (db ?r')))]"
    by (simp add: r' say_def)
  have groups: "\<forall>k. (\<exists>x\<in>set ?rows. username x = Some k) \<longrightarrow>
           (\<exists>m\<in>set ?rows. username m = Some k
              \<and> (\<forall>x\<in>set ?rows. username x = Some k \<longrightarrow> l_id m \<le> l_id x)
              \<and> filter (\<lambda>x. username x = Some k) (processed_leads (db ?r')) = [m])"
  proof (intro allI impI)
    fix k assume "\<exists>x\<in>set ?rows. username x = Some k"
    then obtain m where m: "m \<in> set ?rows" "username m = Some k"
      "\<forall>x\<in>set ?rows. username x = Some k \<longrightarrow> l_id m \<le> l_id x"
      using group_minimum by blast
    from kept_group [OF ids m] m
    show "\<exists>m\<in>set ?rows. username m = Some k
              \<and> (\<forall>x\<in>set ?rows. username x = Some k \<longrightarrow> l_id m \<le> l_id x)
              \<and> filter (\<lambda>x. username x = Some k) (processed_leads (db ?r')) = [m]"
      unfolding kept by blast
  qed
  have unique: "\<forall>x\<in>set (processed_leads (db ?r')). \<forall>y\<in>set (processed_leads (db ?r')).
           username x \<noteq> None \<and> username x = username y \<longrightarrow> x = y"
  proof (intro ballI impI)
    fix x y
    assume x: "x \<in> set (processed_leads (db ?r'))"
      and y: "y \<in> set (processed_leads (db ?r'))"
      and k: "username x \<noteq> None \<and> username x = username y"
    have x': "x \<in> set ?rows" "\<not> superseded ?rows x" using x by (simp_all add: kept)
    have y': "y \<in> set ?rows" "\<not> superseded ?rows y" using y by (simp_all add: kept)
    from k show "x = y"
      using kept_unique [OF ids x' y'] by blast
  qed
  have ex: "deduplicate confirmed_dedupe (fresh_run ups four_leads) =
     (say (Success_dedupe (fst (dedupe_sql (db (fresh_run ups four_leads)))))
        ((say Warning_dedupe_confirm (fresh_run ups four_leads))
           \<lparr>db := snd (dedupe_sql (db (fresh_run ups four_leads)))\<rparr>))\<lparr>rerun := True\<rparr>"
    by (rule deduplicate_confirmed) (simp_all add: confirmed_dedupe_def idle_def)
  have ex_kept: "processed_leads (db (deduplicate confirmed_dedupe (fresh_run ups four_leads)))
           = [lead 1 ''A'', lead 3 ''B'']"
    by (subst ex) (simp add: say_def fresh_run_def four_leads_dedupe)
  have ex_out: "out (deduplicate confirmed_dedupe (fresh_run ups four_leads))
           = [Warning_dedupe_confirm, Success_dedupe 2]"
    by (subst ex) (simp add: say_def fresh_run_def four_leads_dedupe)
  show ?thesis
    by (intro conjI only_deletes reported groups unique ex_kept ex_out)
qed

theorem deduplicate_keeps_earliest_witness:
  "distinct (map l_id (processed_leads (db (fresh_run [] four_leads))))
   \<and> dedupe_button confirmed_dedupe \<and> dedupe_confirm_button confirmed_dedupe
   \<and> \<not> db_fails confirmed_dedupe Dedupe_leads
   \<and> filter (\<lambda>x. username x = Some ''A'')
        (processed_leads (db (deduplicate confirmed_dedupe (fresh_run [] four_leads))))
       = [lead 1 ''A'']
   \<and> out (deduplicate confirmed_dedupe (fresh_run [] four_leads))
       = [Warning_dedupe_confirm, Success_dedupe 2]"
proof -
  have ids: "distinct (map l_id (processed_leads (db (fresh_run [] four_leads))))"
    by (simp add: fresh_run_def four_leads_def lead_def)
  have click: "dedupe_button confirmed_dedupe" "dedupe_confirm_button confirmed_dedupe"
    and up: "\<not> db_fails confirmed_dedupe Dedupe_leads"
    by (simp_all add: confirmed_dedupe_def idle_def)
  note t = deduplicate_keeps_earliest [OF ids click up, of "[]"]
  have "processed_leads (db (deduplicate confirmed_dedupe (fresh_run [] four_leads)))
         = [lead 1 ''A'', lead 3 ''B'']"
    using t by blast
  then have "filter (\<lambda>x. username x = Some ''A'')
        (processed_leads (db (deduplicate confirmed_dedupe (fresh_run [] four_leads))))
       = [lead 1 ''A'']"
    by (simp add: lead_def)
  moreover have "out (deduplicate confirmed_dedupe (fresh_run [] four_leads))
       = [Warning_dedupe_confirm, Success_dedupe 2]"
    using t by blast
  ultimately show ?thesis using ids click up by blast
qed

section \<open>The confirmation before deduplication\<close>

lemma deduplicate_unconfirmed:
  "\<not> dedupe_confirm_button inp \<Longrightarrow>
     deduplicate inp r = (if dedupe_button inp then say Warning_dedupe_confirm r else r)"
  by (simp add: deduplicate_def st_button_def)

lemma deduplicate_not_requested:
  "\<not> dedupe_button inp \<Longrightarrow> deduplicate inp r = r"
  by (simp add: deduplicate_def st_button_def)

lemma deduplicate_store_failure:
  "dedupe_button inp \<Longrightarrow> dedupe_confirm_button inp \<Longrightarrow> db_fails inp Dedupe_leads \<Longrightarrow>
     deduplicate inp r = say (Error_dedupe OperationalError) (say Warning_dedupe_confirm r)"
  by (simp add: deduplicate_def st_button_def try_except_def)

text \<open>
  Claim C3. The deletion is behind a confirmation: in a run where the confirming button of
  line 271 is not pressed, the store is left as it was and the run shows at most the warning
  that asks for the confirmation, never a completed deduplication; with both buttons pressed
  (and the store answering) the \<^verbatim>\<open>DELETE\<close> is performed; and whenever the store was changed,
  the confirmation had been given. The value of each \<^verbatim>\<open>st.button\<close> is an input of the run.
\<close>

theorem deduplicate_needs_confirmation:
  "(\<not> dedupe_confirm_button inp \<longrightarrow>
       db (deduplicate inp r) = db r
     \<and> out (deduplicate inp r) = (if dedupe_button inp then out r @ [Warning_dedupe_confirm] else out r)
     \<and> (\<forall>n. Success_dedupe n \<notin> set (out (deduplicate inp r)) - set (out r)))
   \<and> (dedupe_button inp \<and> dedupe_confirm_button inp \<and> \<not> db_fails inp Dedupe_leads \<longrightarrow>
       processed_leads (db (deduplicate inp r))
         = filter (\<lambda>t. \<not> superseded (processed_leads (db r)) t) (processed_leads (db r)))
   \<and> (db (deduplicate inp r) \<noteq> db r \<longrightarrow> dedupe_button inp \<and> dedupe_confirm_button inp)"
proof (intro conjI impI)
  assume n: "\<not> dedupe_confirm_button inp"
  show "db (deduplicate inp r) = db r"
    by (simp add: deduplicate_unconfirmed [OF n] say_def)
  show "out (deduplicate inp r) = (if dedupe_button inp then out r @ [Warning_dedupe_confirm] else out r)"
    by (simp add: deduplicate_unconfirmed [OF n] say_def)
  show "\<forall>n. Success_dedupe n \<notin> set (out (deduplicate inp r)) - set (out r)"
    by (simp add: deduplicate_unconfirmed [OF n] say_def)
next
  assume "dedupe_button inp \<and> dedupe_confirm_button inp \<and> \<not> db_fails inp Dedupe_leads"
  then show "processed_leads (db (deduplicate inp r))
         = filter (\<lambda>t. \<not> superseded (processed_leads (db r)) t) (processed_leads (db r))"
    by (simp add: deduplicate_confirmed say_def dedupe_sql_def)
next
  assume ch: "db (deduplicate inp r) \<noteq> db r"
  show "dedupe_button inp"
  proof (rule ccontr)
    assume "\<not> dedupe_button inp"
    then have "deduplicate inp r = r" by (rule deduplicate_not_requested)
    with ch show False by simp
  qed
  show "dedupe_confirm_button inp"
  proof (rule ccontr)
    assume "\<not> dedupe_confirm_button inp"
    then have "db (deduplicate inp r) = db r"
      by (simp add: deduplicate_unconfirmed say_def)
    with ch show False by simp
  qed
qed

theorem deduplicate_needs_confirmation_witness:
  "\<not> dedupe_confirm_button (idle\<lparr>dedupe_button := True\<rparr>)
   \<and> processed_leads (db (deduplicate (idle\<lparr>dedupe_button := True\<rparr>) (fresh_run [] four_leads)))
       = four_leads
   \<and> out (deduplicate (idle\<lparr>dedupe_button := True\<rparr>) (fresh_run [] four_leads))
       = [Warning_dedupe_confirm]
   \<and> dedupe_button confirmed_dedupe \<and> dedupe_confirm_button confirmed_dedupe
   \<and> \<not> db_fails confirmed_dedupe Dedupe_leads
   \<and> db (deduplicate confirmed_dedupe (fresh_run [] four_leads)) \<noteq> db (fresh_run [] four_leads)
   \<and> processed_leads (db (deduplicate confirmed_dedupe (fresh_run [] four_leads)))
       = [lead 1 ''A'', lead 3 ''B'']"
proof -
  let ?ask = "idle\<lparr>dedupe_button := True\<rparr>"
  let ?r = "fresh_run [] four_leads :: unit run"
  have n: "\<not> dedupe_confirm_button ?ask" and b: "dedupe_button ?ask"
    by (simp_all add: idle_def)
  have c: "dedupe_button confirmed_dedupe \<and> dedupe_confirm_button confirmed_dedupe
           \<and> \<not> db_fails confirmed_dedupe Dedupe_leads"
    by (simp add: confirmed_dedupe_def idle_def)
  note t1 = deduplicate_needs_confirmation [of ?ask ?r]
  note t2 = deduplicate_needs_confirmation [of confirmed_dedupe ?r]
  have a1: "processed_leads (db (deduplicate ?ask ?r)) = four_leads"
    using t1 n by (simp add: fresh_run_def)
  have a2: "out (deduplicate ?ask ?r) = [Warning_dedupe_confirm]"
    using t1 n b by (simp add: fresh_run_def)
  have "processed_leads (db (deduplicate confirmed_dedupe ?r))
         = filter (\<lambda>t. \<not> superseded (processed_leads (db ?r)) t) (processed_leads (db ?r))"
    using t2 c by blast
  also have "processed_leads (db ?r) = four_leads" by (simp add: fresh_run_def)
  also have "filter (\<lambda>t. \<not> superseded four_leads t) four_leads = [lead 1 ''A'', lead 3 ''B'']"
    by (subst (2) four_leads_def) (simp add: four_leads_superseded)
  finally have a3: "processed_leads (db (deduplicate confirmed_dedupe ?r)) = [lead 1 ''A'', lead 3 ''B'']" .
  have a4: "db (deduplicate confirmed_dedupe ?r) \<noteq> db ?r"
  proof
    assume "db (deduplicate confirmed_dedupe ?r) = db ?r"
    then have "processed_leads (db (deduplicate confirmed_dedupe ?r)) = four_leads"
      by (simp add: fresh_run_def)
    with a3 show False by (simp add: four_leads_def)
  qed
  show ?thesis using n a1 a2 c a3 a4 by blast
qed

section \<open>The status update\<close>

lemma update_sql_rows:
  "length (csv_uploads (update_sql i d)) = length (csv_uploads d)"
  "csv_uploads_id_seq (update_sql i d) = csv_uploads_id_seq d"
  "processed_leads (update_sql i d) = processed_leads d"
  by (simp_all add: update_sql_def)

lemma update_sql_nth:
  assumes "n < length (csv_uploads d)"
  shows "csv_uploads (update_sql i d) ! n =
     (if u_id (csv_uploads d ! n) = i then (csv_uploads d ! n)\<lparr>status := ''inprogress''\<rparr>
      else csv_uploads d ! n)"
  using assms by (simp add: update_sql_def)

lemma process_clicked_guard:
  "selected_file_status sel \<noteq> Some ''notstarted'' \<Longrightarrow>
     process_clicked env inp sel r
       = say (Warning_cannot_process (selected sel) (selected_file_status sel)) r"
  by (simp add: process_clicked_def split: option.splits)

lemma process_clicked_no_id:
  "selected_file_id sel = None \<Longrightarrow>
     process_clicked env inp sel r
       = say (Warning_cannot_process (selected sel) (selected_file_status sel)) r"
  by (simp add: process_clicked_def)

lemma process_leads_disabled:
  "process_button_disabled sel \<or> \<not> process_button inp \<Longrightarrow> process_leads env inp sel r = r"
  by (auto simp: process_leads_def st_button_def)

text \<open>
  Claim C1, as stated, fails: the statement of line 231 selects by id alone. On a store whose
  batch 1 is \<^verbatim>\<open>complete\<close>, a status other than \<^verbatim>\<open>notstarted\<close>, it sets the status to
  \<^verbatim>\<open>inprogress\<close>.
\<close>

theorem update_sql_ignores_status:
  "map status (csv_uploads one_complete) = [''complete'']
   \<and> ''complete'' \<noteq> ''notstarted''
   \<and> map status (csv_uploads (update_sql 1 one_complete)) = [''inprogress'']"
  by (simp add: one_complete_def upload_def update_sql_def)

text \<open>
  Claim C1, amended. The \<^verbatim>\<open>UPDATE\<close> of line 231 keeps every row in place with its id,
  filename and payload, sets the status of each row with the given id to \<^verbatim>\<open>inprogress\<close>
  whatever it was, and leaves all other rows and the other table alone; it has no failing
  outcome. The comparison with \<^verbatim>\<open>notstarted\<close> is made before it, at lines 184 and 202, on
  the status that the listing of line 140 returned: when that status is not
  \<^verbatim>\<open>notstarted\<close>, the button changes nothing and sends nothing.
\<close>

theorem update_sql_by_id:
  "length (csv_uploads (update_sql i d)) = length (csv_uploads d)
   \<and> (\<forall>n < length (csv_uploads d).
        u_id (csv_uploads (update_sql i d) ! n) = u_id (csv_uploads d ! n)
      \<and> filename (csv_uploads (update_sql i d) ! n) = filename (csv_uploads d ! n)
      \<and> csv_data (csv_uploads (update_sql i d) ! n) = csv_data (csv_uploads d ! n)
      \<and> status (csv_uploads (update_sql i d) ! n)
          = (if u_id (csv_uploads d ! n) = i then ''inprogress'' else status (csv_uploads d ! n)))
   \<and> csv_uploads_id_seq (update_sql i d) = csv_uploads_id_seq d
   \<and> processed_leads (update_sql i d) = processed_leads d
   \<and> (selected_file_status sel \<noteq> Some ''notstarted'' \<longrightarrow>
        db (process_leads env inp sel r) = db r
      \<and> posted (process_leads env inp sel r) = posted r)"
proof -
  have guard: "selected_file_status sel \<noteq> Some ''notstarted'' \<longrightarrow>
        db (process_leads env inp sel r) = db r
      \<and> posted (process_leads env inp sel r) = posted r"
    by (simp add: process_leads_def process_clicked_guard say_def)
  have rows: "\<forall>n < length (csv_uploads d).
        u_id (csv_uploads (update_sql i d) ! n) = u_id (csv_uploads d ! n)
      \<and> filename (csv_uploads (update_sql i d) ! n) = filename (csv_uploads d ! n)
      \<and> csv_data (csv_uploads (update_sql i d) ! n) = csv_data (csv_uploads d ! n)
      \<and> status (csv_uploads (update_sql i d) ! n)
          = (if u_id (csv_uploads d ! n) = i then ''inprogress'' else status (csv_uploads d ! n))"
    by (simp add: update_sql_nth)
  show ?thesis
    by (intro conjI update_sql_rows rows guard)
qed

theorem update_sql_by_id_witness:
  "selected_file_status (no_selection None) \<noteq> Some ''notstarted''
   \<and> (0::nat) < length (csv_uploads one_complete)
   \<and> status (csv_uploads (update_sql 1 one_complete) ! 0) = ''inprogress''
   \<and> db (process_leads example_env (idle\<lparr>process_button := True\<rparr>) (no_selection None)
            (fresh_run (csv_uploads one_complete) ([] :: unit lead_row list)))
      = db (fresh_run (csv_uploads one_complete) [])"
proof -
  have g: "selected_file_status (no_selection None) \<noteq> Some ''notstarted''"
    by (simp add: no_selection_def)
  have l: "(0::nat) < length (csv_uploads one_complete)"
    by (simp add: one_complete_def)
  note t = update_sql_by_id [of 1 one_complete "no_selection None" example_env
      "idle\<lparr>process_button := True\<rparr>"
      "fresh_run (csv_uploads one_complete) ([] :: unit lead_row list)"]
  have "status (csv_uploads (update_sql 1 one_complete) ! 0)
          = (if u_id (csv_uploads one_complete ! 0) = 1 then ''inprogress''
             else status (csv_uploads one_complete ! 0))"
    using t l by blast
  then have s: "status (csv_uploads (update_sql 1 one_complete) ! 0) = ''inprogress''"
    by (simp add: one_complete_def upload_def)
  show ?thesis using g l s t by blast
qed

section \<open>Dispatch\<close>

lemma filter_key_only:
  "distinct (map f xs) \<Longrightarrow> x \<in> set xs \<Longrightarrow> filter (\<lambda>y. f y = f x) xs = [x]"
proof (induction xs)
  case Nil
  then show ?case by simp
next
  case (Cons a xs)
  show ?case
  proof (cases "a = x")
    case True
    have "f a \<notin> f ` set xs" using Cons.prems(1) by simp
    then have "\<forall>y \<in> set xs. f y \<noteq> f x" using True by (metis imageI)
    then have "filter (\<lambda>y. f y = f x) xs = []"
      by (simp add: filter_empty_conv)
    with True show ?thesis by simp
  next
    case False
    then have "x \<in> set xs" using Cons.prems(2) by simp
    moreover have "f a \<noteq> f x" using Cons.prems(1) \<open>x \<in> set xs\<close> by auto
    ultimately show ?thesis using Cons by simp
  qed
qed

lemma fetch_sql_only:
  "distinct (map u_id (csv_uploads d)) \<Longrightarrow> b \<in> set (csv_uploads d) \<Longrightarrow>
     fetch_sql (u_id b) d = [csv_data b]"
  by (simp add: fetch_sql_def filter_key_only)

lemma fetch_sql_absent:
  "\<forall>b \<in> set (csv_uploads d). u_id b \<noteq> i \<Longrightarrow> fetch_sql i d = []"
  by (auto simp: fetch_sql_def filter_empty_conv)

lemma read_csv_data_stored:
  "stored_payload env b p \<Longrightarrow> read_csv_data env i (csv_data b) r = (None, PStr p, r)"
  by (simp add: stored_payload_def read_csv_data_def parse_csv_data_def csv_object_def)

lemma send_csv_text:
  "p \<noteq> [] \<Longrightarrow>
   send_csv env inp i fn (PStr p) r =
     (case post inp (request_for env i p) of
        Post_raises \<Rightarrow> (Some RequestException, r\<lparr>posted := posted r @ [request_for env i p]\<rparr>)
      | Response status_code text \<Rightarrow>
          if status_code = 200 then
            (if db_fails inp Update_status
             then (Some OperationalError, r\<lparr>posted := posted r @ [request_for env i p]\<rparr>)
             else (None,
               (say (Success_sent fn i)
                  (r\<lparr>posted := posted r @ [request_for env i p], db := update_sql i (db r)\<rparr>))
               \<lparr>rerun := True\<rparr>))
          else (None, r\<lparr>posted := posted r @ [request_for env i p]\<rparr>))"
  by (simp add: send_csv_def request_for_def Let_def say_def split: post_result.splits)

lemma send_csv_no_text:
  "\<not> truthy v \<Longrightarrow> send_csv env inp i fn v r = (Some UnboundLocalError, r)"
  by (simp add: send_csv_def)

lemma fetch_and_send_stored:
  assumes "distinct (map u_id (csv_uploads (db r)))" "b \<in> set (csv_uploads (db r))"
    and "stored_payload env b p" "\<not> db_fails inp Fetch_csv"
  shows "fetch_and_send env inp (u_id b) fn r = send_csv env inp (u_id b) fn (PStr p) r"
  using assms
  by (simp add: fetch_and_send_def fetch_sql_only read_csv_data_stored)

lemma fetch_and_send_absent:
  assumes "\<forall>b \<in> set (csv_uploads (db r)). u_id b \<noteq> i" "\<not> db_fails inp Fetch_csv"
  shows "fetch_and_send env inp i fn r
           = (Some UnboundLocalError, say (Error_no_csv_data i) r)"
  using assms
  by (simp add: fetch_and_send_def fetch_sql_absent read_csv_data_def send_csv_no_text)

lemma captions_enabled:
  "\<not> process_button_disabled sel \<Longrightarrow> selected sel = Some n \<Longrightarrow> n \<noteq> [] \<Longrightarrow>
   files_df sel = Some df \<Longrightarrow> df \<noteq> [] \<Longrightarrow> captions sel r = r"
  by (simp add: captions_def)

lemma captions_disabled:
  "process_button_disabled sel \<Longrightarrow> selected sel = Some n \<Longrightarrow> n \<noteq> [] \<Longrightarrow>
   captions sel r = say (Caption_cannot_process (selected sel) (selected_file_status sel)) r"
  by (simp add: captions_def)

lemma shown_simps [simp]:
  "db (shown b r) = db r" "session (shown b r) = session r" "posted (shown b r) = posted r"
  "rerun (shown b r) = rerun r"
  "out (shown b r) = out r @
     [Selectbox (map (\<lambda>(i, fn, s). fn) (files_query (db r)))
        (list_index (map (\<lambda>(i, fn, s). fn) (files_query (db r))) (filename b)),
      Markdown_status (get_status_color (status b)) (status b) (u_id b)]"
  by (simp_all add: shown_def)

lemma dispatch_refused:
  assumes sel: "has_selected inp r b" and st: "status b \<noteq> ''notstarted''"
  shows "file_processing env inp r
           = say (Caption_cannot_process (Some (filename b)) (Some (status b))) (shown b r)"
proof -
  have ne: "filename b \<noteq> []" and nr: "\<not> rerun r"
    using sel by (simp_all add: has_selected_def)
  show ?thesis
    unfolding file_processing_def select_file_selected [OF sel]
    using st ne nr
    by (simp add: process_leads_def st_button_def captions_disabled)
qed

lemma dispatch_not_pressed:
  assumes sel: "has_selected inp r b" and st: "status b = ''notstarted''"
    and np: "\<not> process_button inp"
  shows "file_processing env inp r = shown b r"
proof -
  have ne: "filename b \<noteq> []" and nr: "\<not> rerun r"
    and b: "b \<in> set (csv_uploads (db r))"
    using sel by (simp_all add: has_selected_def)
  have df: "files_query (db r) \<noteq> []" using b by (auto simp: files_query_Nil)
  show ?thesis
    unfolding file_processing_def select_file_selected [OF sel]
    using st ne nr np df
    by (simp add: process_leads_def st_button_def captions_def)
qed

lemma dispatch_sends:
  assumes sel: "has_selected inp r b" and st: "status b = ''notstarted''"
    and press: "process_button inp"
    and ids: "distinct (map u_id (csv_uploads (db r)))"
    and pay: "stored_payload env b p" "p \<noteq> []"
    and up: "\<not> db_fails inp Fetch_csv"
  shows "file_processing env inp r =
     (case post inp (request_for env (u_id b) p) of
        Post_raises \<Rightarrow>
          say (Error_processing (Some (filename b)) RequestException)
            ((shown b r)\<lparr>posted := posted r @ [request_for env (u_id b) p]\<rparr>)
      | Response status_code text \<Rightarrow>
          if status_code = 200 then
            (if db_fails inp Update_status
             then say (Error_processing (Some (filename b)) OperationalError)
                    ((shown b r)\<lparr>posted := posted r @ [request_for env (u_id b) p]\<rparr>)
             else (say (Success_sent (Some (filename b)) (u_id b))
                    ((shown b r)\<lparr>posted := posted r @ [request_for env (u_id b) p],
                                 db := update_sql (u_id b) (db r)\<rparr>))
                  \<lparr>rerun := True\<rparr>)
          else (shown b r)\<lparr>posted := posted r @ [request_for env (u_id b) p]\<rparr>)"
proof -
  have ne: "filename b \<noteq> []" and nr: "\<not> rerun r"
    and b: "b \<in> set (csv_uploads (db r))"
    using sel by (simp_all add: has_selected_def)
  have df: "files_query (db r) \<noteq> []" using b by (auto simp: files_query_Nil)
  have ids': "distinct (map u_id (csv_uploads (db (shown b r))))" using ids by simp
  have b': "b \<in> set (csv_uploads (db (shown b r)))" using b by simp
  have fs: "fetch_and_send env inp (u_id b) (Some (filename b)) (shown b r)
      = send_csv env inp (u_id b) (Some (filename b)) (PStr p) (shown b r)"
    using fetch_and_send_stored [OF ids' b' pay(1) up] .
  show ?thesis
    unfolding file_processing_def select_file_selected [OF sel]
    using st ne nr press df
    by (simp add: process_leads_def st_button_def process_clicked_def fs
        send_csv_text [OF pay(2)] try_except_def captions_def
        split: post_result.splits)
qed

section \<open>A response other than 200\<close>

lemma leads_csv_loads:
  "plain_loads leads_csv = Inr (csv_object ''name,handle'')"
  by (simp add: leads_csv_def plain_loads_def plain_dumps_def csv_object_def)

lemma leads_row_stored: "stored_payload example_env leads_row ''name,handle''"
  using leads_csv_loads
  by (simp add: stored_payload_def leads_row_def upload_def example_env_def leads_csv_def
      csv_object_def plain_dumps_def)

lemma leads_run_selected:
  "file_selector inp = None \<Longrightarrow> \<not> db_fails inp List_files \<Longrightarrow>
     has_selected inp leads_run leads_row"
  by (simp add: has_selected_def leads_run_def leads_row_def upload_def)

lemma leads_run_ids: "distinct (map u_id (csv_uploads (db leads_run)))"
  by (simp add: leads_run_def)

lemma leads_run_listing: "files_query (db leads_run) = [(1, ''leads.csv'', ''notstarted'')]"
  by (simp add: files_query_def leads_run_def leads_row_def upload_def)

text \<open>
  Claim C4 asks that a response other than 200 leaves the status alone and reaches the user
  as an error. The status is left alone, but nothing is shown: with \<^verbatim>\<open>leads.csv\<close> registered,
  not started and selected, the button pressed and the endpoint answering 500, the request is
  sent and the run shows the select box and the status line only. The message of line 237
  that names the status code sits in the \<^verbatim>\<open>else\<close> of line 220, not of line 228.
\<close>

theorem non_200_response_shows_no_error:
  "post endpoint_500 (request_for example_env 1 ''name,handle'')
     = Response 500 ''Internal Server Error''
   \<and> posted (file_processing example_env endpoint_500 leads_run)
       = [request_for example_env 1 ''name,handle'']
   \<and> out (file_processing example_env endpoint_500 leads_run)
       = [Selectbox [''leads.csv''] 0, Markdown_status ''gray'' ''notstarted'' 1]
   \<and> db (file_processing example_env endpoint_500 leads_run) = db leads_run
   \<and> \<not> rerun (file_processing example_env endpoint_500 leads_run)"
proof -
  have sel: "has_selected endpoint_500 leads_run leads_row"
    by (rule leads_run_selected) (simp_all add: endpoint_500_def press_process_def idle_def)
  have st: "status leads_row = ''notstarted''" and i: "u_id leads_row = 1"
    and fn: "filename leads_row = ''leads.csv''"
    by (simp_all add: leads_row_def upload_def)
  have press: "process_button endpoint_500" and up: "\<not> db_fails endpoint_500 Fetch_csv"
    and answer: "post endpoint_500 (request_for example_env 1 ''name,handle'')
                   = Response 500 ''Internal Server Error''"
    by (simp_all add: endpoint_500_def press_process_def idle_def)
  have ne: "''name,handle'' \<noteq> []" by simp
  have eq: "file_processing example_env endpoint_500 leads_run
        = (shown leads_row leads_run)
            \<lparr>posted := posted leads_run @ [request_for example_env 1 ''name,handle'']\<rparr>"
    using dispatch_sends [OF sel st press leads_run_ids leads_row_stored ne up]
    by (simp add: i answer)
  have start: "posted leads_run = []" "out leads_run = []" "\<not> rerun leads_run"
    by (simp_all add: leads_run_def)
  have p: "posted (file_processing example_env endpoint_500 leads_run)
       = [request_for example_env 1 ''name,handle'']"
    by (simp add: eq start)
  have o: "out (file_processing example_env endpoint_500 leads_run)
       = [Selectbox [''leads.csv''] 0, Markdown_status ''gray'' ''notstarted'' 1]"
    by (simp add: eq start leads_run_listing st i fn get_status_color_def)
  have d: "db (file_processing example_env endpoint_500 leads_run) = db leads_run"
    by (simp add: eq)
  have n: "\<not> rerun (file_processing example_env endpoint_500 leads_run)"
    by (simp add: eq start)
  show ?thesis
    by (intro conjI answer p o d n)
qed

section \<open>The precondition of dispatch\<close>

lemma process_clicked_absent:
  assumes "\<forall>b \<in> set (csv_uploads (db r)). u_id b \<noteq> i"
    and "selected_file_id sel = Some i" "selected_file_status sel = Some ''notstarted''"
    and "\<not> db_fails inp Fetch_csv"
  shows "process_clicked env inp sel r
           = say (Error_processing (selected sel) UnboundLocalError)
               (say (Error_no_csv_data i) r)"
  using assms
  by (simp add: process_clicked_def fetch_and_send_absent try_except_def)

text \<open>
  Claim C6. When the selected batch has a status other than \<^verbatim>\<open>notstarted\<close>, pressing the
  button changes nothing in the store and sends nothing; the run ends by telling the user
  that the file cannot be processed (line 245), and shows no success. The handler itself
  (line 202) answers a status other than \<^verbatim>\<open>notstarted\<close> with the warning of line 241, again
  without sending or changing anything. For an id that no row of the table has, the handler
  shows that no data was found for that id (line 218), then the error of line 239, sends
  nothing and changes nothing.
\<close>

theorem dispatch_requires_notstarted:
  "(has_selected inp r b \<and> status b \<noteq> ''notstarted'' \<longrightarrow>
       db (file_processing env inp r) = db r
     \<and> posted (file_processing env inp r) = posted r
     \<and> last (out (file_processing env inp r))
         = Caption_cannot_process (Some (filename b)) (Some (status b))
     \<and> (\<forall>fn i. Success_sent fn i \<notin> set (out (file_processing env inp r)) - set (out r)))
   \<and> (selected_file_status sel \<noteq> Some ''notstarted'' \<longrightarrow>
       db (process_clicked env inp sel r) = db r
     \<and> posted (process_clicked env inp sel r) = posted r
     \<and> out (process_clicked env inp sel r)
         = out r @ [Warning_cannot_process (selected sel) (selected_file_status sel)])
   \<and> ((\<forall>b \<in> set (csv_uploads (db r)). u_id b \<noteq> i)
       \<and> selected_file_id sel = Some i \<and> selected_file_status sel = Some ''notstarted''
       \<and> \<not> db_fails inp Fetch_csv \<longrightarrow>
       db (process_clicked env inp sel r) = db r
     \<and> posted (process_clicked env inp sel r) = posted r
     \<and> out (process_clicked env inp sel r)
         = out r @ [Error_no_csv_data i, Error_processing (selected sel) UnboundLocalError])"
proof (intro conjI impI)
  assume a: "has_selected inp r b \<and> status b \<noteq> ''notstarted''"
  then have eq: "file_processing env inp r
      = say (Caption_cannot_process (Some (filename b)) (Some (status b))) (shown b r)"
    using dispatch_refused by blast
  show "db (file_processing env inp r) = db r" by (simp add: eq)
  show "posted (file_processing env inp r) = posted r" by (simp add: eq)
  show "last (out (file_processing env inp r))
         = Caption_cannot_process (Some (filename b)) (Some (status b))"
    by (simp add: eq)
  show "\<forall>fn i. Success_sent fn i \<notin> set (out (file_processing env inp r)) - set (out r)"
    by (simp add: eq)
next
  assume g: "selected_file_status sel \<noteq> Some ''notstarted''"
  show "db (process_clicked env inp sel r) = db r"
    by (simp add: process_clicked_guard [OF g])
  show "posted (process_clicked env inp sel r) = posted r"
    by (simp add: process_clicked_guard [OF g])
  show "out (process_clicked env inp sel r)
         = out r @ [Warning_cannot_process (selected sel) (selected_file_status sel)]"
    by (simp add: process_clicked_guard [OF g])
next
  assume a: "(\<forall>b \<in> set (csv_uploads (db r)). u_id b \<noteq> i)
       \<and> selected_file_id sel = Some i \<and> selected_file_status sel = Some ''notstarted''
       \<and> \<not> db_fails inp Fetch_csv"
  then have eq: "process_clicked env inp sel r
           = say (Error_processing (selected sel) UnboundLocalError)
               (say (Error_no_csv_data i) r)"
    using process_clicked_absent by blast
  show "db (process_clicked env inp sel r) = db r" by (simp add: eq)
  show "posted (process_clicked env inp sel r) = posted r" by (simp add: eq)
  show "out (process_clicked env inp sel r)
         = out r @ [Error_no_csv_data i, Error_processing (selected sel) UnboundLocalError]"
    by (simp add: eq)
qed

lemma sent_run_selected:
  "file_selector inp = None \<Longrightarrow> \<not> db_fails inp List_files \<Longrightarrow>
     has_selected inp sent_run sent_row"
  by (simp add: has_selected_def sent_run_def leads_run_def sent_row_def upload_def)

theorem dispatch_requires_notstarted_witness:
  "has_selected press_process sent_run sent_row \<and> status sent_row \<noteq> ''notstarted''
   \<and> db (file_processing example_env press_process sent_run) = db sent_run
   \<and> posted (file_processing example_env press_process sent_run) = []
   \<and> last (out (file_processing example_env press_process sent_run))
       = Caption_cannot_process (Some ''leads.csv'') (Some ''inprogress'')
   \<and> selected_file_status (no_selection None) \<noteq> Some ''notstarted''
   \<and> out (process_clicked example_env press_process (no_selection None) sent_run)
       = [Warning_cannot_process None None]
   \<and> 7 \<notin> set (map u_id (csv_uploads (db sent_run)))
   \<and> selected_file_id stale_selection = Some 7
   \<and> selected_file_status stale_selection = Some ''notstarted''
   \<and> \<not> db_fails press_process Fetch_csv
   \<and> posted (process_clicked example_env press_process stale_selection sent_run) = []
   \<and> out (process_clicked example_env press_process stale_selection sent_run)
       = [Error_no_csv_data 7, Error_processing (Some ''gone.csv'') UnboundLocalError]"
proof -
  have h1: "has_selected press_process sent_run sent_row \<and> status sent_row \<noteq> ''notstarted''"
    by (simp add: sent_run_selected press_process_def idle_def)
       (simp add: sent_row_def upload_def)
  have h2: "selected_file_status (no_selection None) \<noteq> Some ''notstarted''"
    by (simp add: no_selection_def)
  have h3: "(\<forall>b \<in> set (csv_uploads (db sent_run)). u_id b \<noteq> 7)
       \<and> selected_file_id stale_selection = Some 7
       \<and> selected_file_status stale_selection = Some ''notstarted''
       \<and> \<not> db_fails press_process Fetch_csv"
    by (simp add: sent_run_def leads_run_def sent_row_def upload_def stale_selection_def
        press_process_def idle_def)
  have start: "posted sent_run = []" "out sent_run = []"
    by (simp_all add: sent_run_def leads_run_def)
  have names: "filename sent_row = ''leads.csv''" "status sent_row = ''inprogress''"
    "selected (no_selection None) = None" "selected_file_status (no_selection None) = None"
    "selected stale_selection = Some ''gone.csv''"
    by (simp_all add: sent_row_def upload_def no_selection_def stale_selection_def)
  note t1 = dispatch_requires_notstarted
      [of press_process sent_run sent_row example_env "no_selection None" 7]
  note t2 = dispatch_requires_notstarted
      [of press_process sent_run sent_row example_env stale_selection 7]
  have a: "db (file_processing example_env press_process sent_run) = db sent_run"
    "posted (file_processing example_env press_process sent_run) = []"
    "last (out (file_processing example_env press_process sent_run))
       = Caption_cannot_process (Some ''leads.csv'') (Some ''inprogress'')"
    using t1 h1 by (simp_all add: start names)
  have b: "out (process_clicked example_env press_process (no_selection None) sent_run)
       = [Warning_cannot_process None None]"
    using t1 h2 by (simp add: start names)
  have c: "posted (process_clicked example_env press_process stale_selection sent_run) = []"
    "out (process_clicked example_env press_process stale_selection sent_run)
       = [Error_no_csv_data 7, Error_processing (Some ''gone.csv'') UnboundLocalError]"
    using t2 h3 by (simp_all add: start names)
  have h4: "7 \<notin> set (map u_id (csv_uploads (db sent_run)))"
    by (simp add: sent_run_def leads_run_def sent_row_def upload_def)
  show ?thesis
    using h1 h2 h3 h4 a b c by blast
qed

section \<open>A successful dispatch\<close>

lemma update_sql_image:
  "set (csv_uploads (update_sql i d))
     = (\<lambda>r. if u_id r = i then r\<lparr>status := ''inprogress''\<rparr> else r) ` set (csv_uploads d)"
  by (simp add: update_sql_def)

lemma update_sql_member:
  assumes "b \<in> set (csv_uploads d)"
  shows "b\<lparr>status := ''inprogress''\<rparr> \<in> set (csv_uploads (update_sql (u_id b) d))"
  unfolding update_sql_image
  by (rule image_eqI [where x = b]) (simp_all add: assms)

lemma update_sql_status:
  assumes "b' \<in> set (csv_uploads (update_sql i d))" and "u_id b' = i"
  shows "status b' = ''inprogress''"
proof -
  obtain r where r: "r \<in> set (csv_uploads d)"
    and b': "b' = (if u_id r = i then r\<lparr>status := ''inprogress''\<rparr> else r)"
    using assms(1) unfolding update_sql_image by blast
  show ?thesis
  proof (cases "u_id r = i")
    case True
    then show ?thesis by (simp add: b')
  next
    case False
    then have "b' = r" by (simp add: b')
    with False assms(2) show ?thesis by simp
  qed
qed

lemma update_sql_filename:
  assumes b: "b \<in> set (csv_uploads d)"
    and uniq: "\<forall>b' \<in> set (csv_uploads d). filename b' = filename b \<longrightarrow> b' = b"
    and c: "c \<in> set (csv_uploads (update_sql (u_id b) d))" and f: "filename c = filename b"
  shows "c = b\<lparr>status := ''inprogress''\<rparr>"
proof -
  obtain r where r: "r \<in> set (csv_uploads d)"
    and c': "c = (if u_id r = u_id b then r\<lparr>status := ''inprogress''\<rparr> else r)"
    using c unfolding update_sql_image by blast
  have "filename c = filename r" by (simp add: c')
  then have "filename r = filename b" using f by simp
  then have "r = b" using uniq r by blast
  then show ?thesis by (simp add: c')
qed

text \<open>
  Claim C8. Let a batch be selected whose status is \<^verbatim>\<open>notstarted\<close> and whose payload was
  stored by registration from a non-empty text, in a table with pairwise different ids, and
  let the endpoint answer 200 to the request. Then pressing the button sends exactly that one
  request, ends by showing the success message, sets the batch's status to \<^verbatim>\<open>inprogress\<close> and
  reruns. Pressing the button again in the next run changes nothing, sends nothing and ends
  by telling the user that the file cannot be processed.
\<close>

theorem dispatch_success_then_refused:
  assumes sel: "has_selected inp r b" and st: "status b = ''notstarted''"
    and press: "process_button inp"
    and ids: "distinct (map u_id (csv_uploads (db r)))"
    and pay: "stored_payload env b p" "p \<noteq> []"
    and up: "\<not> db_fails inp Fetch_csv" "\<not> db_fails inp Update_status"
    and ok: "post inp (request_for env (u_id b) p) = Response 200 t"
    and r1: "r1 = file_processing env inp r"
    and again: "file_selector inp2 = None \<or> file_selector inp2 = Some (filename b)"
      "\<not> db_fails inp2 List_files"
    and r2: "r2 = file_processing env inp2 (next_run r1)"
  shows "posted r1 = posted r @ [request_for env (u_id b) p]
    \<and> last (out r1) = Success_sent (Some (filename b)) (u_id b)
    \<and> rerun r1
    \<and> b\<lparr>status := ''inprogress''\<rparr> \<in> set (csv_uploads (db r1))
    \<and> (\<forall>b' \<in> set (csv_uploads (db r1)). u_id b' = u_id b \<longrightarrow> status b' = ''inprogress'')
    \<and> db r2 = db r1
    \<and> posted r2 = []
    \<and> last (out r2) = Caption_cannot_process (Some (filename b)) (Some ''inprogress'')"
proof -
  have b: "b \<in> set (csv_uploads (db r))" and ne: "filename b \<noteq> []"
    and uniq: "\<forall>b' \<in> set (csv_uploads (db r)). filename b' = filename b \<longrightarrow> b' = b"
    and cur: "selected_filename (session r) = Some (filename b)"
    using sel by (simp_all add: has_selected_def)
  have eq1: "r1 = (say (Success_sent (Some (filename b)) (u_id b))
                    ((shown b r)\<lparr>posted := posted r @ [request_for env (u_id b) p],
                                 db := update_sql (u_id b) (db r)\<rparr>))\<lparr>rerun := True\<rparr>"
    unfolding r1 dispatch_sends [OF sel st press ids pay up(1)]
    by (simp add: ok up(2))
  have d1: "db r1 = update_sql (u_id b) (db r)" and s1: "session r1 = session r"
    by (simp_all add: eq1)
  let ?b = "b\<lparr>status := ''inprogress''\<rparr>"
  have mem: "?b \<in> set (csv_uploads (db r1))"
    unfolding d1 using b by (rule update_sql_member)
  have uniq1: "\<forall>c \<in> set (csv_uploads (db r1)). filename c = filename ?b \<longrightarrow> c = ?b"
  proof (intro ballI impI)
    fix c assume c: "c \<in> set (csv_uploads (db r1))" and f: "filename c = filename ?b"
    have c': "c \<in> set (csv_uploads (update_sql (u_id b) (db r)))" using c by (simp only: d1)
    have f': "filename c = filename b" using f by simp
    show "c = ?b" by (rule update_sql_filename [OF b uniq c' f'])
  qed
  have sel2: "has_selected inp2 (next_run r1) ?b"
  proof -
    have dbn: "db (next_run r1) = db r1" and sn: "session (next_run r1) = session r"
      and rn: "\<not> rerun (next_run r1)"
      by (simp_all add: next_run_def s1)
    have fb: "filename ?b = filename b" by simp
    show ?thesis
      unfolding has_selected_def dbn sn fb
      using mem uniq1 [unfolded fb] ne cur again rn by (intro conjI)
  qed
  have "status ?b \<noteq> ''notstarted''" by simp
  from dispatch_refused [OF sel2 this, of env]
  have eq2: "r2 = say (Caption_cannot_process (Some (filename b)) (Some ''inprogress''))
                    (shown ?b (next_run r1))"
    by (simp add: r2)
  have p1: "posted r1 = posted r @ [request_for env (u_id b) p]" by (simp add: eq1)
  have o1: "last (out r1) = Success_sent (Some (filename b)) (u_id b)" by (simp add: eq1)
  have rr: "rerun r1" by (simp add: eq1)
  have all: "\<forall>b' \<in> set (csv_uploads (db r1)). u_id b' = u_id b \<longrightarrow> status b' = ''inprogress''"
    unfolding d1 using update_sql_status by blast
  have d2: "db r2 = db r1" by (simp add: eq2 next_run_def)
  have p2: "posted r2 = []" by (simp add: eq2 next_run_def)
  have o2: "last (out r2) = Caption_cannot_process (Some (filename b)) (Some ''inprogress'')"
    by (simp add: eq2)
  show ?thesis
    by (intro conjI p1 o1 rr mem all d2 p2 o2)
qed

theorem dispatch_success_then_refused_witness:
  "has_selected press_process leads_run leads_row \<and> status leads_row = ''notstarted''
   \<and> process_button press_process
   \<and> distinct (map u_id (csv_uploads (db leads_run)))
   \<and> stored_payload example_env leads_row ''name,handle'' \<and> ''name,handle'' \<noteq> []
   \<and> \<not> db_fails press_process Fetch_csv \<and> \<not> db_fails press_process Update_status
   \<and> post press_process (request_for example_env (u_id leads_row) ''name,handle'')
        = Response 200 []
   \<and> \<not> db_fails press_process List_files
   \<and> posted (file_processing example_env press_process leads_run)
        = [request_for example_env 1 ''name,handle'']
   \<and> sent_row \<in> set (csv_uploads (db (file_processing example_env press_process leads_run)))
   \<and> posted (file_processing example_env press_process
               (next_run (file_processing example_env press_process leads_run))) = []
   \<and> last (out (file_processing example_env press_process
               (next_run (file_processing example_env press_process leads_run))))
        = Caption_cannot_process (Some ''leads.csv'') (Some ''inprogress'')"
proof -
  have inp: "process_button press_process" "\<not> db_fails press_process Fetch_csv"
    "\<not> db_fails press_process Update_status" "\<not> db_fails press_process List_files"
    "file_selector press_process = None"
    and ok: "post press_process (request_for example_env (u_id leads_row) ''name,handle'')
        = Response 200 []"
    by (simp_all add: press_process_def idle_def)
  have sel: "has_selected press_process leads_run leads_row"
    by (rule leads_run_selected) (simp_all add: inp)
  have st: "status leads_row = ''notstarted''" and i: "u_id leads_row = 1"
    and fn: "filename leads_row = ''leads.csv''"
    and sent: "leads_row\<lparr>status := ''inprogress''\<rparr> = sent_row"
    by (simp_all add: leads_row_def sent_row_def upload_def)
  have ne: "''name,handle'' \<noteq> []" by simp
  have again: "file_selector press_process = None
               \<or> file_selector press_process = Some (filename leads_row)"
    by (simp add: inp)
  note t = dispatch_success_then_refused
      [OF sel st inp(1) leads_run_ids leads_row_stored ne inp(2) inp(3) ok refl again inp(4) refl]
  have start: "posted leads_run = []" by (simp add: leads_run_def)
  have a: "posted (file_processing example_env press_process leads_run)
        = [request_for example_env 1 ''name,handle'']"
    using t by (simp add: start i)
  have b: "sent_row \<in> set (csv_uploads (db (file_processing example_env press_process leads_run)))"
    using t by (simp add: sent)
  have c: "posted (file_processing example_env press_process
               (next_run (file_processing example_env press_process leads_run))) = []"
    using t by simp
  have d: "last (out (file_processing example_env press_process
               (next_run (file_processing example_env press_process leads_run))))
        = Caption_cannot_process (Some ''leads.csv'') (Some ''inprogress'')"
    using t by (simp add: fn)
  show ?thesis
    by (intro conjI sel st inp(1) leads_run_ids leads_row_stored ne inp(2) inp(3) ok inp(4) a b c d)
qed

section \<open>What each part of a run can change\<close>

lemma login_db: "db (login env inp r) = db r"
  by (simp add: login_def)

lemma load_csv_frame:
  "db (snd (load_csv inp r)) = db r" "posted (snd (load_csv inp r)) = posted r"
  "rerun (snd (load_csv inp r)) = rerun r"
  by (simp_all add: load_csv_def Let_def split: option.splits)

lemma save_csv_db:
  "db (snd (save_csv env inp f r)) = db r
   \<or> (check_sql (name f) (db r) = None
      \<and> (\<exists>data. db (snd (save_csv env inp f r)) = insert_sql (name f) data (db r)))"
  by (auto simp: save_csv_def Let_def split: option.splits)


lemma try_except_frame:
  "db (try_except h res) = db (snd res)" "posted (try_except h res) = posted (snd res)"
  "rerun (try_except h res) = rerun (snd res)"
  by (simp_all add: try_except_def split: prod.splits option.splits)

lemma csv_upload_db:
  "db (csv_upload env inp r) = db r
   \<or> (\<exists>fn data. check_sql fn (db r) = None
        \<and> db (csv_upload env inp r) = insert_sql fn data (db r))"
proof (cases "load_csv inp r")
  case (Pair ok r1)
  have d1: "db r1 = db r" using load_csv_frame(1) [of inp r] Pair by simp
  show ?thesis
  proof (cases "ok \<and> uploaded_file_object (session r1) \<noteq> None \<and> save_button inp")
    case False
    then show ?thesis
      using Pair d1
      by (auto simp: csv_upload_def Let_def st_button_def split: option.splits bool.splits)
  next
    case True
    then obtain f where f: "uploaded_file_object (session r1) = Some f" by auto
    have eq: "csv_upload env inp r
        = try_except Error_saving (save_csv env inp f (say Dataframe_upload r1))"
      using Pair True f by (simp add: csv_upload_def Let_def st_button_def split: bool.splits)
    show ?thesis
      unfolding eq try_except_frame
      using save_csv_db [of env inp f "say Dataframe_upload r1"] by (simp add: d1) blast
  qed
qed


lemma file_details_frame:
  "db (snd (file_details df sel r)) = db r" "posted (snd (file_details df sel r)) = posted r"
  "rerun (snd (file_details df sel r)) = rerun r"
  by (simp_all add: file_details_def split: list.splits)

lemma file_details_sound:
  assumes "selected_file_id (fst (file_details df sel r)) = Some i"
  shows "\<exists>fn s. (i, fn, s) \<in> set df
           \<and> selected_file_status (fst (file_details df sel r)) = Some s"
proof (cases "filter (\<lambda>(i, fn, s). fn = sel) df")
  case Nil
  then show ?thesis using assms by (simp add: file_details_def)
next
  case (Cons x rest)
  obtain j fn s where x: "x = (j, fn, s)" by (cases x)
  have "x \<in> set (filter (\<lambda>(i, fn, s). fn = sel) df)" by (simp add: Cons)
  then have "(j, fn, s) \<in> set df" by (auto simp: x)
  moreover have "j = i" "selected_file_status (fst (file_details df sel r)) = Some s"
    using assms by (simp_all add: file_details_def Cons x)
  ultimately show ?thesis by blast
qed

lemma choose_file_frame:
  "db (snd (choose_file df inp r)) = db r" "posted (snd (choose_file df inp r)) = posted r"
  by (simp_all add: choose_file_def Let_def file_details_frame split: option.splits)

lemma choose_file_shape:
  "(\<exists>r'. choose_file df inp r = (no_selection (Some df), r'))
   \<or> (\<exists>sel r2. choose_file df inp r = file_details df sel r2)"
proof (cases "selected_filename (validate_selection (map (\<lambda>(i, fn, s). fn) df) (session r))")
  case None
  then show ?thesis by (simp add: choose_file_def Let_def)
next
  case (Some sel)
  show ?thesis
  proof (cases "sel = [] \<or> st_selectbox (map (\<lambda>(i, fn, s). fn) df)
        (current_index (map (\<lambda>(i, fn, s). fn) df) sel) (file_selector inp) \<noteq> sel")
    case True
    then have "\<exists>r'. choose_file df inp r = (no_selection (Some df), r')"
      using Some by (auto simp: choose_file_def Let_def)
    then show ?thesis ..
  next
    case False
    then have "\<exists>r2. choose_file df inp r = file_details df sel r2"
      using Some by (auto simp: choose_file_def Let_def)
    then show ?thesis by blast
  qed
qed

lemma choose_file_sound:
  assumes "selected_file_id (fst (choose_file df inp r)) = Some i"
  shows "\<exists>fn s. (i, fn, s) \<in> set df
           \<and> selected_file_status (fst (choose_file df inp r)) = Some s"
proof -
  from choose_file_shape [of df inp r]
  show ?thesis
  proof
    assume "\<exists>r'. choose_file df inp r = (no_selection (Some df), r')"
    then show ?thesis using assms by (auto simp: no_selection_def)
  next
    assume "\<exists>sel r2. choose_file df inp r = file_details df sel r2"
    then obtain sel r2 where eq: "choose_file df inp r = file_details df sel r2" by blast
    show ?thesis
      using assms unfolding eq by (rule file_details_sound)
  qed
qed

lemma select_file_frame:
  "db (snd (select_file inp r)) = db r" "posted (snd (select_file inp r)) = posted r"
  by (simp_all add: select_file_def read_from_postgres_def choose_file_frame)

lemma select_file_sound:
  assumes "selected_file_id (fst (select_file inp r)) = Some i"
  shows "\<exists>b \<in> set (csv_uploads (db r)). u_id b = i
           \<and> selected_file_status (fst (select_file inp r)) = Some (status b)"
proof -
  have eq: "select_file inp r = choose_file (files_query (db r)) inp r"
    using assms
    by (simp add: select_file_def read_from_postgres_def no_selection_def split: if_splits)
  from choose_file_sound [of "files_query (db r)" inp r i] assms
  obtain fn s where "(i, fn, s) \<in> set (files_query (db r))"
    and "selected_file_status (fst (select_file inp r)) = Some s"
    by (auto simp: eq)
  then show ?thesis by (auto simp: set_files_query)
qed

lemma parse_csv_data_frame:
  "db (snd (snd (parse_csv_data env c r))) = db r"
  "posted (snd (snd (parse_csv_data env c r))) = posted r"
  "rerun (snd (snd (parse_csv_data env c r))) = rerun r"
  by (simp_all add: parse_csv_data_def split: sum.splits option.splits cell.splits)

lemma read_csv_data_frame:
  "db (snd (snd (read_csv_data env i result r))) = db r"
  "posted (snd (snd (read_csv_data env i result r))) = posted r"
  "rerun (snd (snd (read_csv_data env i result r))) = rerun r"
  by (simp_all add: read_csv_data_def parse_csv_data_frame split: option.splits)

lemma send_csv_db:
  "db (snd (send_csv env inp i fn v r)) = db r
   \<or> (db (snd (send_csv env inp i fn v r)) = update_sql i (db r)
      \<and> rerun (snd (send_csv env inp i fn v r)))"
  by (simp add: send_csv_def Let_def split: pyval.splits post_result.splits)

lemma send_csv_rerun:
  "rerun (snd (send_csv env inp i fn v r)) \<or> rerun (snd (send_csv env inp i fn v r)) = rerun r"
  by (simp add: send_csv_def Let_def split: pyval.splits post_result.splits)

lemma fetch_and_send_db:
  "db (snd (fetch_and_send env inp i fn r)) = db r
   \<or> (db (snd (fetch_and_send env inp i fn r)) = update_sql i (db r)
      \<and> rerun (snd (fetch_and_send env inp i fn r)))"
proof (cases "db_fails inp Fetch_csv")
  case True
  then show ?thesis by (simp add: fetch_and_send_def)
next
  case False
  show ?thesis
  proof (cases "scalar_one_or_none (fetch_sql i (db r))")
    case (Inl e)
    then show ?thesis using False by (simp add: fetch_and_send_def)
  next
    case (Inr result)
    obtain e v r1 where rd: "read_csv_data env i result r = (e, v, r1)"
      by (cases "read_csv_data env i result r") auto
    have d1: "db r1 = db r" using read_csv_data_frame(1) [of env i result r] rd by simp
    show ?thesis
    proof (cases e)
      case None
      then have "fetch_and_send env inp i fn r = send_csv env inp i fn v r1"
        using False Inr rd by (simp add: fetch_and_send_def)
      then show ?thesis using send_csv_db [of env inp i fn v r1] by (simp add: d1)
    next
      case (Some x)
      then show ?thesis using False Inr rd d1 by (simp add: fetch_and_send_def)
    qed
  qed
qed

lemma process_clicked_db:
  "db (process_clicked env inp sel r) = db r
   \<or> (\<exists>i. selected_file_id sel = Some i \<and> selected_file_status sel = Some ''notstarted''
        \<and> db (process_clicked env inp sel r) = update_sql i (db r)
        \<and> rerun (process_clicked env inp sel r))"
proof (cases "selected_file_id sel")
  case None
  then show ?thesis by (simp add: process_clicked_def)
next
  case (Some i)
  show ?thesis
  proof (cases "selected_file_status sel = Some ''notstarted''")
    case False
    then show ?thesis using Some by (simp add: process_clicked_def)
  next
    case True
    have eq: "process_clicked env inp sel r
        = try_except (Error_processing (selected sel))
            (fetch_and_send env inp i (selected sel) r)"
      using Some True by (simp add: process_clicked_def)
    show ?thesis
      unfolding eq try_except_frame
      using fetch_and_send_db [of env inp i "selected sel" r] Some True by auto
  qed
qed

lemma process_leads_db:
  "db (process_leads env inp sel r) = db r
   \<or> (\<exists>i. selected_file_id sel = Some i \<and> selected_file_status sel = Some ''notstarted''
        \<and> db (process_leads env inp sel r) = update_sql i (db r)
        \<and> rerun (process_leads env inp sel r))"
  using process_clicked_db [of env inp sel r] by (simp add: process_leads_def)

lemma captions_frame: "db (captions sel r) = db r" "posted (captions sel r) = posted r"
  by (simp_all add: captions_def Let_def)

lemma file_processing_db:
  "db (file_processing env inp r) = db r
   \<or> (\<exists>b \<in> set (csv_uploads (db r)). status b = ''notstarted''
        \<and> db (file_processing env inp r) = update_sql (u_id b) (db r))"
proof (cases "select_file inp r")
  case (Pair sel r2)
  have d2: "db r2 = db r" using select_file_frame(1) [of inp r] Pair by simp
  show ?thesis
  proof (cases "rerun r2")
    case True
    then show ?thesis using Pair d2 by (simp add: file_processing_def)
  next
    case False
    let ?r3 = "process_leads env inp sel r2"
    have d: "db (file_processing env inp r) = db ?r3"
      using Pair False by (simp add: file_processing_def Let_def captions_frame)
    from process_leads_db [of env inp sel r2]
    show ?thesis
    proof
      assume "db ?r3 = db r2"
      then show ?thesis by (simp add: d d2)
    next
      assume "\<exists>i. selected_file_id sel = Some i
        \<and> selected_file_status sel = Some ''notstarted''
        \<and> db ?r3 = update_sql i (db r2) \<and> rerun ?r3"
      then obtain i where i: "selected_file_id sel = Some i"
        and s: "selected_file_status sel = Some ''notstarted''"
        and u: "db ?r3 = update_sql i (db r2)" by blast
      from select_file_sound [of inp r i] i Pair
      obtain b where "b \<in> set (csv_uploads (db r))" "u_id b = i"
        "selected_file_status sel = Some (status b)" by auto
      then show ?thesis using s u by (auto simp: d d2)
    qed
  qed
qed

lemma deduplicate_uploads:
  "csv_uploads (db (deduplicate inp r)) = csv_uploads (db r)"
  "csv_uploads_id_seq (db (deduplicate inp r)) = csv_uploads_id_seq (db r)"
  by (simp_all add: deduplicate_def Let_def try_except_def dedupe_sql_def)

lemma processed_leads_tab_uploads:
  "csv_uploads (db (processed_leads_tab inp r)) = csv_uploads (db r)"
  "csv_uploads_id_seq (db (processed_leads_tab inp r)) = csv_uploads_id_seq (db r)"
  by (simp_all add: processed_leads_tab_def Let_def show_processed_def read_from_postgres_def
      show_count_def deduplicate_uploads)

lemma csv_upload_rerun:
  "db (csv_upload env inp r) \<noteq> db r \<Longrightarrow> rerun (csv_upload env inp r)"
proof (cases "load_csv inp r")
  case (Pair ok r1)
  assume ch: "db (csv_upload env inp r) \<noteq> db r"
  have d1: "db r1 = db r" using load_csv_frame(1) [of inp r] Pair by simp
  show ?thesis
    using Pair d1 ch
    by (auto simp: csv_upload_def Let_def st_button_def try_except_def save_csv_def
        split: option.splits bool.splits if_splits)
qed

lemma file_processing_rerun:
  "db (file_processing env inp r) \<noteq> db r \<Longrightarrow> rerun (file_processing env inp r)"
proof (cases "select_file inp r")
  case (Pair sel r2)
  assume ch: "db (file_processing env inp r) \<noteq> db r"
  have d2: "db r2 = db r" using select_file_frame(1) [of inp r] Pair by simp
  show ?thesis
  proof (cases "rerun r2")
    case True
    then show ?thesis using Pair by (simp add: file_processing_def)
  next
    case False
    let ?r3 = "process_leads env inp sel r2"
    show ?thesis
    proof (cases "rerun ?r3")
      case True
      then show ?thesis using Pair False by (simp add: file_processing_def Let_def)
    next
      case nr: False
      then have "db ?r3 = db r2" using process_leads_db [of env inp sel r2] by auto
      then have "db (file_processing env inp r) = db r"
        using Pair False nr by (simp add: file_processing_def Let_def captions_frame d2)
      with ch show ?thesis by simp
    qed
  qed
qed

lemma logged_in_part_step:
  "(csv_uploads (db (logged_in_part env inp r)) = csv_uploads (db r)
      \<and> csv_uploads_id_seq (db (logged_in_part env inp r)) = csv_uploads_id_seq (db r))
   \<or> (\<exists>fn data. check_sql fn (db r) = None
        \<and> csv_uploads (db (logged_in_part env inp r)) = csv_uploads (insert_sql fn data (db r))
        \<and> csv_uploads_id_seq (db (logged_in_part env inp r)) = csv_uploads_id_seq (db r) + 1)
   \<or> (\<exists>b \<in> set (csv_uploads (db r)). status b = ''notstarted''
        \<and> csv_uploads (db (logged_in_part env inp r))
            = csv_uploads (update_sql (u_id b) (db r))
        \<and> csv_uploads_id_seq (db (logged_in_part env inp r)) = csv_uploads_id_seq (db r))"
proof -
  let ?r1 = "csv_upload env inp r"
  let ?r2 = "file_processing env inp ?r1"
  show ?thesis
  proof (cases "rerun ?r1")
    case True
    then have eq: "logged_in_part env inp r = ?r1" by (simp add: logged_in_part_def Let_def)
    from csv_upload_db [of env inp r] show ?thesis
      unfolding eq by (auto simp: insert_sql_def)
  next
    case False
    then have d1: "db ?r1 = db r" using csv_upload_rerun [of env inp r] by auto
    show ?thesis
    proof (cases "rerun ?r2")
      case True
      then have eq: "logged_in_part env inp r = ?r2"
        using False by (simp add: logged_in_part_def Let_def)
      from file_processing_db [of env inp ?r1] show ?thesis
        unfolding eq d1 by (auto simp: update_sql_def)
    next
      case nr: False
      then have d2: "db ?r2 = db r" using file_processing_rerun [of env inp ?r1] d1 by auto
      have eq: "logged_in_part env inp r = processed_leads_tab inp ?r2"
        using False nr by (simp add: logged_in_part_def Let_def)
      show ?thesis
        unfolding eq by (simp add: processed_leads_tab_uploads d2)
    qed
  qed
qed

lemma main_step:
  "(csv_uploads (db (main env inp r)) = csv_uploads (db r)
      \<and> csv_uploads_id_seq (db (main env inp r)) = csv_uploads_id_seq (db r))
   \<or> (\<exists>fn data. check_sql fn (db r) = None
        \<and> csv_uploads (db (main env inp r)) = csv_uploads (insert_sql fn data (db r))
        \<and> csv_uploads_id_seq (db (main env inp r)) = csv_uploads_id_seq (db r) + 1)
   \<or> (\<exists>b \<in> set (csv_uploads (db r)). status b = ''notstarted''
        \<and> csv_uploads (db (main env inp r)) = csv_uploads (update_sql (u_id b) (db r))
        \<and> csv_uploads_id_seq (db (main env inp r)) = csv_uploads_id_seq (db r))"
proof (cases "logged_in (session r)")
  case True
  then have "main env inp r = logged_in_part env inp r" by (simp add: main_def)
  then show ?thesis using logged_in_part_step [of env inp r] by simp
next
  case False
  then show ?thesis by (simp add: main_def login_db)
qed

lemma check_sql_None: "check_sql fn d = None \<longleftrightarrow> fn \<notin> filename ` set (csv_uploads d)"
  by (auto simp: check_sql_def find_None_iff)

lemma main_filenames:
  assumes "distinct (map filename (csv_uploads (db r)))"
  shows "distinct (map filename (csv_uploads (db (main env inp r))))"
proof -
  have upd: "map filename (csv_uploads (update_sql i d)) = map filename (csv_uploads d)" for i and d :: "'a database"
    by (simp add: update_sql_def comp_def if_distrib [of filename] cong: if_cong)
  from main_step [of env inp r] show ?thesis
    using assms by (auto simp: upd insert_sql_def check_sql_None)
qed

section \<open>What a sequence of runs preserves\<close>

lemma row_step_refl: "row_step a a"
  by (simp add: row_step_def)

lemma row_step_trans: "row_step a b \<Longrightarrow> row_step b c \<Longrightarrow> row_step a c"
  by (auto simp: row_step_def)

lemma evolves_refl: "well_formed d \<Longrightarrow> evolves d d"
  by (simp add: evolves_def list_all2_same row_step_refl)

lemma evolves_trans:
  assumes "evolves d1 d2" "evolves d2 d3"
  shows "evolves d1 d3"
proof -
  let ?a = "csv_uploads d1" and ?b = "csv_uploads d2" and ?c = "csv_uploads d3"
  have l: "length ?a \<le> length ?b" "length ?b \<le> length ?c"
    and ab: "list_all2 row_step ?a (take (length ?a) ?b)"
    and bc: "list_all2 row_step ?b (take (length ?b) ?c)"
    and wf: "well_formed d3"
    using assms by (simp_all add: evolves_def)
  have "list_all2 row_step (take (length ?a) ?b) (take (length ?a) (take (length ?b) ?c))"
    using bc by (rule list_all2_takeI)
  then have "list_all2 row_step (take (length ?a) ?b) (take (length ?a) ?c)"
    using l by (simp add: min_def)
  with ab have "list_all2 row_step ?a (take (length ?a) ?c)"
    by (rule list_all2_trans [rotated]) (rule row_step_trans)
  then show ?thesis using l wf by (simp add: evolves_def)
qed

lemma evolves_insert:
  assumes "well_formed d"
    and rows: "csv_uploads d' = csv_uploads (insert_sql fn text d)"
    and seq: "csv_uploads_id_seq d' = csv_uploads_id_seq d + 1"
  shows "evolves d d'"
proof -
  have d: "distinct (map u_id (csv_uploads d))"
    and le: "\<forall>b \<in> set (csv_uploads d). u_id b \<le> csv_uploads_id_seq d"
    using assms(1) by (simp_all add: well_formed_def list_all_iff)
  have fresh: "csv_uploads_id_seq d + 1 \<notin> u_id ` set (csv_uploads d)"
    using le by force
  have wf: "well_formed d'"
    using d le fresh
    by (auto simp: well_formed_def rows seq insert_sql_def list_all_iff)
  show ?thesis
    using wf by (simp add: evolves_def rows insert_sql_def list_all2_same row_step_refl)
qed

lemma same_id_same_row:
  "distinct (map u_id rows) \<Longrightarrow> a \<in> set rows \<Longrightarrow> b \<in> set rows \<Longrightarrow> u_id a = u_id b \<Longrightarrow> a = b"
  by (meson distinct_map inj_onD)

lemma evolves_update:
  assumes "well_formed d" and b: "b \<in> set (csv_uploads d)" "status b = ''notstarted''"
    and rows: "csv_uploads d' = csv_uploads (update_sql (u_id b) d)"
    and seq: "csv_uploads_id_seq d' = csv_uploads_id_seq d"
  shows "evolves d d'"
proof -
  let ?upd = "\<lambda>r. if u_id r = u_id b then r\<lparr>status := ''inprogress''\<rparr> else r"
  have d: "distinct (map u_id (csv_uploads d))"
    and le: "\<forall>b \<in> set (csv_uploads d). u_id b \<le> csv_uploads_id_seq d"
    using assms(1) by (simp_all add: well_formed_def list_all_iff)
  have rows': "csv_uploads d' = map ?upd (csv_uploads d)"
    by (simp add: rows update_sql_def)
  have ids: "map u_id (csv_uploads d') = map u_id (csv_uploads d)"
    by (simp add: rows' comp_def if_distrib [of u_id] cong: if_cong)
  have le': "\<forall>c \<in> set (csv_uploads d'). u_id c \<le> csv_uploads_id_seq d"
  proof
    fix c assume "c \<in> set (csv_uploads d')"
    then have "u_id c \<in> set (map u_id (csv_uploads d'))" by simp
    then have "u_id c \<in> set (map u_id (csv_uploads d))" by (simp only: ids)
    then show "u_id c \<le> csv_uploads_id_seq d" using le by auto
  qed
  have wf: "well_formed d'"
    using d le' by (simp add: well_formed_def ids seq list_all_iff)
  have step: "row_step a (?upd a)" if "a \<in> set (csv_uploads d)" for a
  proof (cases "u_id a = u_id b")
    case True
    then have "a = b" using same_id_same_row [OF d that b(1)] by simp
    then show ?thesis using b(2) by (simp add: row_step_def)
  next
    case False
    then show ?thesis by (simp add: row_step_def)
  qed
  have "list_all2 row_step (csv_uploads d) (map ?upd (csv_uploads d))"
    using step by (simp add: list_all2_map2 list_all2_same)
  then show ?thesis using wf by (simp add: evolves_def rows')
qed

lemma evolves_same:
  assumes "well_formed d" "csv_uploads d' = csv_uploads d"
    "csv_uploads_id_seq d' = csv_uploads_id_seq d"
  shows "evolves d d'"
  using assms by (simp add: evolves_def well_formed_def list_all2_same row_step_refl)

lemma main_evolves:
  assumes "well_formed (db r)"
  shows "evolves (db r) (db (main env inp r))"
  using main_step [of env inp r]
    evolves_same [OF assms, of "db (main env inp r)"]
    evolves_insert [OF assms, of "db (main env inp r)"]
    evolves_update [OF assms, of _ "db (main env inp r)"]
  by blast

lemma runs_evolves:
  "well_formed d \<Longrightarrow> evolves d (snd (runs env inps (s, d)))"
proof (induction inps arbitrary: s d)
  case Nil
  then show ?case by (simp add: evolves_refl)
next
  case (Cons inp inps)
  let ?r = "script_run env inp (s, d)"
  have e1: "evolves d (db ?r)"
    using main_evolves [of "\<lparr>db = d, session = s, out = [], posted = [], rerun = False\<rparr>" env inp]
      Cons.prems by (simp add: script_run_def)
  then have "well_formed (db ?r)" by (simp add: evolves_def)
  then have e2: "evolves (db ?r) (snd (runs env inps (session ?r, db ?r)))"
    by (rule Cons.IH)
  show ?case
    using evolves_trans [OF e1 e2] by (simp add: Let_def)
qed

lemma runs_filenames:
  "distinct (map filename (csv_uploads d)) \<Longrightarrow>
     distinct (map filename (csv_uploads (snd (runs env inps (s, d)))))"
proof (induction inps arbitrary: s d)
  case Nil
  then show ?case by simp
next
  case (Cons inp inps)
  let ?r = "script_run env inp (s, d)"
  have "distinct (map filename (csv_uploads (db ?r)))"
    using main_filenames [of "\<lparr>db = d, session = s, out = [], posted = [], rerun = False\<rparr>" env inp]
      Cons.prems by (simp add: script_run_def)
  then have "distinct (map filename (csv_uploads (snd (runs env inps (session ?r, db ?r)))))"
    by (rule Cons.IH)
  then show ?case by (simp add: Let_def)
qed

section \<open>Registration\<close>

lemma csv_upload_pressed:
  assumes "csv_uploader inp = Some f" "read_csv_ok f" "save_button inp"
  shows "csv_upload env inp r =
     try_except Error_saving
       (save_csv env inp f
          (say Dataframe_upload (r\<lparr>session := (session r)\<lparr>uploaded_file_object := Some f\<rparr>\<rparr>)))"
  using assms by (simp add: csv_upload_def load_csv_def Let_def st_button_def)

lemma register_duplicate:
  assumes "csv_uploader inp = Some f" "read_csv_ok f" "save_button inp"
    and "\<not> db_fails inp Check_filename"
    and "name f \<in> filename ` set (csv_uploads (db r))"
  shows "csv_upload env inp r =
     say (Error_duplicate_filename (name f))
       (say Dataframe_upload (r\<lparr>session := (session r)\<lparr>uploaded_file_object := Some f\<rparr>\<rparr>))"
proof -
  have "check_sql (name f) (db r) \<noteq> None" using assms(5) by (simp add: check_sql_None)
  then obtain y where "check_sql (name f) (db r) = Some y" by auto
  then show ?thesis
    unfolding csv_upload_pressed [OF assms(1-3)]
    using assms(4) by (simp add: save_csv_def try_except_def)
qed

lemma register_success:
  assumes "csv_uploader inp = Some f" "read_csv_ok f" "save_button inp"
    and "\<not> db_fails inp Check_filename" "\<not> db_fails inp Insert_upload"
    and "name f \<notin> filename ` set (csv_uploads (db r))" and "decoded f = Some p"
  shows "db (csv_upload env inp r) = insert_sql (name f) (json_dumps env (csv_object p)) (db r)"
    and "out (csv_upload env inp r) = out r @ [Dataframe_upload, Success_saved (name f)]"
    and "rerun (csv_upload env inp r)"
    and "uploaded_file_object (session (csv_upload env inp r)) = None"
proof -
  have c: "check_sql (name f) (db r) = None" using assms(6) by (simp add: check_sql_None)
  have eq: "csv_upload env inp r =
     (say (Success_saved (name f))
        ((say Dataframe_upload (r\<lparr>session := (session r)\<lparr>uploaded_file_object := Some f\<rparr>\<rparr>))
          \<lparr>db := insert_sql (name f) (json_dumps env (csv_object p)) (db r)\<rparr>))
     \<lparr>session := (session r)\<lparr>uploaded_file_object := None\<rparr>, rerun := True\<rparr>"
    unfolding csv_upload_pressed [OF assms(1-3)]
    using assms(4,5,7) c
    by (simp add: save_csv_def try_except_def Let_def csv_object_def say_def)
  show "db (csv_upload env inp r) = insert_sql (name f) (json_dumps env (csv_object p)) (db r)"
    and "out (csv_upload env inp r) = out r @ [Dataframe_upload, Success_saved (name f)]"
    and "rerun (csv_upload env inp r)"
    and "uploaded_file_object (session (csv_upload env inp r)) = None"
    by (simp_all add: eq)
qed

text \<open>
  Claim C5. Saving an uploaded file whose name some batch already has changes nothing in the
  store and shows the duplicate-filename error (line 109). Saving a file whose name no batch
  has, with text that decodes, appends one batch with the next id, that name, the encoded
  text and the status \<^verbatim>\<open>notstarted\<close>, and shows the success message. And a table whose
  filenames are pairwise different still has pairwise different filenames after any sequence
  of runs of the script, whatever the inputs of each run.
\<close>

theorem register_rejects_duplicate_filename:
  "(csv_uploader inp = Some f \<and> read_csv_ok f \<and> save_button inp
      \<and> \<not> db_fails inp Check_filename
      \<and> name f \<in> filename ` set (csv_uploads (db r)) \<longrightarrow>
       db (csv_upload env inp r) = db r
     \<and> out (csv_upload env inp r)
         = out r @ [Dataframe_upload, Error_duplicate_filename (name f)])
   \<and> (csv_uploader inp = Some f \<and> read_csv_ok f \<and> save_button inp
      \<and> \<not> db_fails inp Check_filename \<and> \<not> db_fails inp Insert_upload
      \<and> name f \<notin> filename ` set (csv_uploads (db r)) \<and> decoded f = Some p \<longrightarrow>
       csv_uploads (db (csv_upload env inp r))
         = csv_uploads (db r) @
             [\<lparr>u_id = csv_uploads_id_seq (db r) + 1, filename = name f,
               csv_data = Some (Text (json_dumps env (csv_object p))),
               status = ''notstarted''\<rparr>]
     \<and> processed_leads (db (csv_upload env inp r)) = processed_leads (db r)
     \<and> out (csv_upload env inp r) = out r @ [Dataframe_upload, Success_saved (name f)])
   \<and> (distinct (map filename (csv_uploads d)) \<longrightarrow>
       distinct (map filename (csv_uploads (snd (runs env inps (s, d))))))"
proof (intro conjI impI)
  assume a: "csv_uploader inp = Some f \<and> read_csv_ok f \<and> save_button inp
      \<and> \<not> db_fails inp Check_filename
      \<and> name f \<in> filename ` set (csv_uploads (db r))"
  then have eq: "csv_upload env inp r =
     say (Error_duplicate_filename (name f))
       (say Dataframe_upload (r\<lparr>session := (session r)\<lparr>uploaded_file_object := Some f\<rparr>\<rparr>))"
    using register_duplicate by blast
  show "db (csv_upload env inp r) = db r" by (simp add: eq)
  show "out (csv_upload env inp r)
         = out r @ [Dataframe_upload, Error_duplicate_filename (name f)]"
    by (simp add: eq)
next
  assume a: "csv_uploader inp = Some f \<and> read_csv_ok f \<and> save_button inp
      \<and> \<not> db_fails inp Check_filename \<and> \<not> db_fails inp Insert_upload
      \<and> name f \<notin> filename ` set (csv_uploads (db r)) \<and> decoded f = Some p"
  then have d: "db (csv_upload env inp r)
      = insert_sql (name f) (json_dumps env (csv_object p)) (db r)"
    and o: "out (csv_upload env inp r) = out r @ [Dataframe_upload, Success_saved (name f)]"
    using register_success [of inp f r p env] by blast+
  show "csv_uploads (db (csv_upload env inp r))
         = csv_uploads (db r) @
             [\<lparr>u_id = csv_uploads_id_seq (db r) + 1, filename = name f,
               csv_data = Some (Text (json_dumps env (csv_object p))),
               status = ''notstarted''\<rparr>]"
    by (simp add: d insert_sql_def)
  show "processed_leads (db (csv_upload env inp r)) = processed_leads (db r)"
    by (simp add: d insert_sql_def)
  show "out (csv_upload env inp r) = out r @ [Dataframe_upload, Success_saved (name f)]"
    by (rule o)
next
  assume "distinct (map filename (csv_uploads d))"
  then show "distinct (map filename (csv_uploads (snd (runs env inps (s, d)))))"
    by (rule runs_filenames)
qed

theorem register_rejects_duplicate_filename_witness:
  "csv_uploader save_leads = Some leads_file \<and> read_csv_ok leads_file \<and> save_button save_leads
   \<and> \<not> db_fails save_leads Check_filename \<and> \<not> db_fails save_leads Insert_upload
   \<and> name leads_file \<in> filename ` set (csv_uploads (db leads_run))
   \<and> db (csv_upload example_env save_leads leads_run) = db leads_run
   \<and> out (csv_upload example_env save_leads leads_run)
       = [Dataframe_upload, Error_duplicate_filename ''leads.csv'']
   \<and> name leads_file \<notin> filename ` set (csv_uploads (db (fresh_run [] ([] :: unit lead_row list))))
   \<and> decoded leads_file = Some ''name,handle''
   \<and> csv_uploads (db (csv_upload example_env save_leads (fresh_run [] ([] :: unit lead_row list))))
       = [leads_row]
   \<and> distinct (map filename (csv_uploads (db leads_run)))
   \<and> distinct (map filename (csv_uploads
        (snd (runs example_env [save_leads, save_leads] (session leads_run, db leads_run)))))"
proof -
  let ?empty = "fresh_run [] ([] :: unit lead_row list)"
  have h: "csv_uploader save_leads = Some leads_file" "read_csv_ok leads_file"
    "save_button save_leads" "\<not> db_fails save_leads Check_filename"
    "\<not> db_fails save_leads Insert_upload" "decoded leads_file = Some ''name,handle''"
    and nm: "name leads_file = ''leads.csv''"
    by (simp_all add: save_leads_def leads_file_def idle_def)
  have dup: "name leads_file \<in> filename ` set (csv_uploads (db leads_run))"
    by (simp add: nm leads_run_def leads_row_def upload_def)
  have new: "name leads_file \<notin> filename ` set (csv_uploads (db ?empty))"
    by (simp add: fresh_run_def)
  have dist: "distinct (map filename (csv_uploads (db leads_run)))"
    by (simp add: leads_run_def)
  note t1 = register_rejects_duplicate_filename
    [of save_leads leads_file leads_run example_env "''name,handle''" "db leads_run"
        "[save_leads, save_leads]" "session leads_run"]
  note t2 = register_rejects_duplicate_filename
    [of save_leads leads_file ?empty example_env "''name,handle''" "db leads_run"
        "[save_leads, save_leads]" "session leads_run"]
  have a: "db (csv_upload example_env save_leads leads_run) = db leads_run"
    "out (csv_upload example_env save_leads leads_run)
       = [Dataframe_upload, Error_duplicate_filename ''leads.csv'']"
    using t1 h dup by (simp_all add: nm leads_run_def)
  have "csv_uploads (db (csv_upload example_env save_leads ?empty))
       = csv_uploads (db ?empty) @
             [\<lparr>u_id = csv_uploads_id_seq (db ?empty) + 1, filename = name leads_file,
               csv_data = Some (Text (json_dumps example_env (csv_object ''name,handle''))),
               status = ''notstarted''\<rparr>]"
    using t2 h new by blast
  then have b: "csv_uploads (db (csv_upload example_env save_leads ?empty)) = [leads_row]"
    by (simp add: fresh_run_def nm leads_row_def upload_def leads_csv_def example_env_def
        csv_object_def)
  have c: "distinct (map filename (csv_uploads
        (snd (runs example_env [save_leads, save_leads] (session leads_run, db leads_run)))))"
    using t1 dist by blast
  show ?thesis
    by (intro conjI h dup a new b dist c)
qed

section \<open>The status never goes back\<close>

lemma evolves_nth:
  assumes "evolves d d'" "n < length (csv_uploads d)"
  shows "n < length (csv_uploads d')" "row_step (csv_uploads d ! n) (csv_uploads d' ! n)"
proof -
  have l: "length (csv_uploads d) \<le> length (csv_uploads d')"
    and a: "list_all2 row_step (csv_uploads d) (take (length (csv_uploads d)) (csv_uploads d'))"
    using assms(1) by (simp_all add: evolves_def)
  show "n < length (csv_uploads d')" using l assms(2) by simp
  have "row_step (csv_uploads d ! n) (take (length (csv_uploads d)) (csv_uploads d') ! n)"
    using a assms(2) by (rule list_all2_nthD)
  then show "row_step (csv_uploads d ! n) (csv_uploads d' ! n)"
    using assms(2) by simp
qed

lemma completed_row_stored: "stored_payload example_env completed_row ''name,handle''"
proof -
  have "csv_data completed_row = csv_data leads_row"
    by (simp add: completed_row_def leads_row_def upload_def)
  then show ?thesis using leads_row_stored by (simp add: stored_payload_def)
qed

text \<open>
  Claim C7, as stated, fails: the handler of the button writes \<^verbatim>\<open>inprogress\<close> whenever the
  status that line 140 listed was \<^verbatim>\<open>notstarted\<close>, whatever the status is by then. Let the
  listing return batch 1 as \<^verbatim>\<open>notstarted\<close>, and let the batch be \<^verbatim>\<open>complete\<close> in the store
  when lines 200-235 run (the enrichment service has written it in between, for instance
  while it answers the request of line 226). The handler moves the batch from
  \<^verbatim>\<open>complete\<close>, rank 2, back to \<^verbatim>\<open>inprogress\<close>, rank 1.
\<close>

theorem stale_dispatch_regresses_status:
  "selected_file_id (fst (select_file press_process leads_run)) = Some 1
   \<and> selected_file_status (fst (select_file press_process leads_run)) = Some ''notstarted''
   \<and> map status (csv_uploads (db completed_run)) = [''complete'']
   \<and> map status (csv_uploads (db
         (process_leads example_env press_process
            (fst (select_file press_process leads_run)) completed_run)))
       = [''inprogress'']
   \<and> status_rank ''complete'' = Some 2 \<and> status_rank ''inprogress'' = Some 1"
proof -
  let ?sel = "fst (select_file press_process leads_run)"
  have inp: "process_button press_process" "\<not> db_fails press_process Fetch_csv"
    "\<not> db_fails press_process Update_status" "\<not> db_fails press_process List_files"
    "file_selector press_process = None"
    and ok: "post press_process (request_for example_env 1 ''name,handle'') = Response 200 []"
    by (simp_all add: press_process_def idle_def)
  have sel: "has_selected press_process leads_run leads_row"
    by (rule leads_run_selected) (simp_all add: inp)
  have row: "status leads_row = ''notstarted''" "u_id leads_row = 1"
    "filename leads_row = ''leads.csv''"
    by (simp_all add: leads_row_def upload_def)
  have s: "selected_file_id ?sel = Some 1" "selected_file_status ?sel = Some ''notstarted''"
    "\<not> process_button_disabled ?sel" "selected ?sel = Some ''leads.csv''"
    by (simp_all add: select_file_selected [OF sel] row)
  have before: "map status (csv_uploads (db completed_run)) = [''complete'']"
    by (simp add: completed_run_def completed_row_def upload_def)
  have ids: "distinct (map u_id (csv_uploads (db completed_run)))"
    and mem: "completed_row \<in> set (csv_uploads (db completed_run))"
    and i: "u_id completed_row = 1"
    by (simp_all add: completed_run_def completed_row_def upload_def)
  have fs: "fetch_and_send example_env press_process 1 (Some ''leads.csv'') completed_run
      = send_csv example_env press_process 1 (Some ''leads.csv'') (PStr ''name,handle'')
          completed_run"
    using fetch_and_send_stored [OF ids mem completed_row_stored inp(2), of "Some ''leads.csv''"]
    by (simp add: i)
  have ne: "''name,handle'' \<noteq> []" by simp
  have eq: "process_leads example_env press_process ?sel completed_run
      = (say (Success_sent (Some ''leads.csv'') 1)
           (completed_run\<lparr>posted := posted completed_run
                                @ [request_for example_env 1 ''name,handle''],
                          db := update_sql 1 (db completed_run)\<rparr>))\<lparr>rerun := True\<rparr>"
    by (simp add: process_leads_def st_button_def process_clicked_def s inp fs
        send_csv_text [OF ne] ok try_except_def)
  have after: "map status (csv_uploads (db
         (process_leads example_env press_process ?sel completed_run))) = [''inprogress'']"
    unfolding eq
    by (simp add: update_sql_def completed_run_def completed_row_def upload_def)
  have ranks: "status_rank ''complete'' = Some 2" "status_rank ''inprogress'' = Some 1"
    by (simp_all add: status_rank_def)
  show ?thesis
    by (intro conjI s(1) s(2) before after ranks)
qed

text \<open>
  Claim C7, amended. As long as nothing but the script writes the store while a run is
  between its listing (line 140) and its update (line 231), the status never goes back.
  Take a well-formed table of batches (ids pairwise different and drawn from the sequence)
  and any sequence of runs of the script, whatever the inputs of each run. Every batch of the
  table is still at its place afterwards, with the same id, and its status is either what it
  was or has gone from \<^verbatim>\<open>notstarted\<close> to \<^verbatim>\<open>inprogress\<close>. So \<^verbatim>\<open>complete\<close> stays
  \<^verbatim>\<open>complete\<close>, \<^verbatim>\<open>inprogress\<close> stays \<^verbatim>\<open>inprogress\<close>, and the rank of a status along
  \<^verbatim>\<open>notstarted\<close>, \<^verbatim>\<open>inprogress\<close>, \<^verbatim>\<open>complete\<close> never goes down. The table at the start is
  any well-formed one, so writes by others between two runs are covered run by run.
\<close>

theorem status_never_regresses:
  assumes wf: "well_formed d" and n: "n < length (csv_uploads d)"
  shows "n < length (csv_uploads (snd (runs env inps (s, d))))
    \<and> u_id (csv_uploads (snd (runs env inps (s, d))) ! n) = u_id (csv_uploads d ! n)
    \<and> (status (csv_uploads (snd (runs env inps (s, d))) ! n) = status (csv_uploads d ! n)
       \<or> status (csv_uploads d ! n) = ''notstarted''
         \<and> status (csv_uploads (snd (runs env inps (s, d))) ! n) = ''inprogress'')
    \<and> (status (csv_uploads d ! n) = ''complete'' \<longrightarrow>
         status (csv_uploads (snd (runs env inps (s, d))) ! n) = ''complete'')
    \<and> (status (csv_uploads d ! n) = ''inprogress'' \<longrightarrow>
         status (csv_uploads (snd (runs env inps (s, d))) ! n) = ''inprogress'')
    \<and> (\<forall>k. status_rank (status (csv_uploads d ! n)) = Some k \<longrightarrow>
         (\<exists>k'. status_rank (status (csv_uploads (snd (runs env inps (s, d))) ! n)) = Some k'
               \<and> k \<le> k'))"
proof -
  let ?a = "csv_uploads d ! n" and ?b = "csv_uploads (snd (runs env inps (s, d))) ! n"
  have e: "evolves d (snd (runs env inps (s, d)))" using wf by (rule runs_evolves)
  have len: "n < length (csv_uploads (snd (runs env inps (s, d))))"
    and step: "row_step ?a ?b"
    using evolves_nth [OF e n] by simp_all
  have id: "u_id ?b = u_id ?a"
    and st: "status ?b = status ?a \<or> status ?a = ''notstarted'' \<and> status ?b = ''inprogress''"
    using step by (simp_all add: row_step_def)
  have c: "status ?a = ''complete'' \<longrightarrow> status ?b = ''complete''"
    using st by auto
  have i: "status ?a = ''inprogress'' \<longrightarrow> status ?b = ''inprogress''"
    using st by auto
  have rank: "\<forall>k. status_rank (status ?a) = Some k \<longrightarrow>
         (\<exists>k'. status_rank (status ?b) = Some k' \<and> k \<le> k')"
    using st by (auto simp: status_rank_def)
  show ?thesis
    by (intro conjI len id st c i rank)
qed

lemma csv_upload_idle:
  "csv_uploader inp = None \<Longrightarrow> uploaded_file_object (session r) = None \<Longrightarrow>
     csv_upload env inp r = r"
  by (simp add: csv_upload_def load_csv_def)

lemma leads_run_pressed:
  "db (script_run example_env press_process (session leads_run, db leads_run))
     = update_sql 1 (db leads_run)"
proof -
  have start: "\<lparr>db = db leads_run, session = session leads_run, out = [], posted = [],
                rerun = False\<rparr> = leads_run"
    by (simp add: leads_run_def)
  have inp: "process_button press_process" "\<not> db_fails press_process Fetch_csv"
    "\<not> db_fails press_process Update_status" "\<not> db_fails press_process List_files"
    "file_selector press_process = None" "csv_uploader press_process = None"
    and ok: "post press_process (request_for example_env (u_id leads_row) ''name,handle'')
        = Response 200 []"
    by (simp_all add: press_process_def idle_def)
  have sel: "has_selected press_process leads_run leads_row"
    by (rule leads_run_selected) (simp_all add: inp)
  have st: "status leads_row = ''notstarted''" and i: "u_id leads_row = 1"
    by (simp_all add: leads_row_def upload_def)
  have ne: "''name,handle'' \<noteq> []" by simp
  have up: "csv_upload example_env press_process leads_run = leads_run"
    by (rule csv_upload_idle) (simp_all add: inp leads_run_def)
  have fp: "file_processing example_env press_process leads_run
      = (say (Success_sent (Some (filename leads_row)) (u_id leads_row))
           ((shown leads_row leads_run)
              \<lparr>posted := posted leads_run
                   @ [request_for example_env (u_id leads_row) ''name,handle''],
               db := update_sql (u_id leads_row) (db leads_run)\<rparr>))\<lparr>rerun := True\<rparr>"
    unfolding dispatch_sends [OF sel st inp(1) leads_run_ids leads_row_stored ne inp(2)]
    by (simp add: ok inp)
  have li: "logged_in (session leads_run)" and nr: "\<not> rerun leads_run"
    by (simp_all add: leads_run_def)
  show ?thesis
    unfolding script_run_def fst_conv snd_conv start
    by (simp add: main_def li logged_in_part_def Let_def up nr fp i)
qed

theorem status_never_regresses_witness:
  "well_formed (db leads_run) \<and> (0::nat) < length (csv_uploads (db leads_run))
   \<and> status (csv_uploads (db leads_run) ! 0) = ''notstarted''
   \<and> status (csv_uploads
        (snd (runs example_env [press_process] (session leads_run, db leads_run))) ! 0)
       = ''inprogress''
   \<and> u_id (csv_uploads
        (snd (runs example_env [press_process] (session leads_run, db leads_run))) ! 0) = 1
   \<and> status_rank ''notstarted'' = Some 0 \<and> status_rank ''inprogress'' = Some 1"
proof -
  have wf: "well_formed (db leads_run)"
    by (simp add: well_formed_def leads_run_def leads_row_def upload_def)
  have n: "(0::nat) < length (csv_uploads (db leads_run))"
    by (simp add: leads_run_def)
  have before: "status (csv_uploads (db leads_run) ! 0) = ''notstarted''"
    by (simp add: leads_run_def leads_row_def upload_def)
  note t = status_never_regresses [OF wf n, of example_env "[press_process]" "session leads_run"]
  have "csv_uploads (snd (runs example_env [press_process] (session leads_run, db leads_run)))
      = csv_uploads (update_sql 1 (db leads_run))"
    by (simp add: Let_def leads_run_pressed)
  then have after: "status (csv_uploads
        (snd (runs example_env [press_process] (session leads_run, db leads_run))) ! 0)
       = ''inprogress''"
    by (simp add: update_sql_def leads_run_def leads_row_def upload_def)
  have "u_id (csv_uploads
        (snd (runs example_env [press_process] (session leads_run, db leads_run))) ! 0)
       = u_id (csv_uploads (db leads_run) ! 0)"
    using t by blast
  then have same_id: "u_id (csv_uploads
        (snd (runs example_env [press_process] (session leads_run, db leads_run))) ! 0) = 1"
    by (simp add: leads_run_def leads_row_def upload_def)
  have ranks: "status_rank ''notstarted'' = Some 0" "status_rank ''inprogress'' = Some 1"
    by (simp_all add: status_rank_def)
  show ?thesis
    by (intro conjI wf n before after same_id ranks)
qed

section \<open>Listing\<close>

lemma csv_upload_not_saved: "\<not> save_button inp \<Longrightarrow> db (csv_upload env inp r) = db r"
  using load_csv_frame(1) [of inp r]
  by (cases "load_csv inp r")
     (auto simp: csv_upload_def Let_def st_button_def split: option.splits bool.splits)

lemma file_processing_not_pressed:
  "\<not> process_button inp \<Longrightarrow> db (file_processing env inp r) = db r"
  using select_file_frame(1) [of inp r]
  by (cases "select_file inp r")
     (simp add: file_processing_def Let_def process_leads_def st_button_def captions_frame)

lemma processed_leads_tab_unconfirmed:
  "\<not> dedupe_confirm_button inp \<Longrightarrow> db (processed_leads_tab inp r) = db r"
  by (simp add: processed_leads_tab_def Let_def deduplicate_unconfirmed show_count_def
      show_processed_def read_from_postgres_def)

lemma refresh_keeps_store:
  assumes "\<not> save_button inp" "\<not> process_button inp" "\<not> dedupe_confirm_button inp"
  shows "db (main env inp r) = db r"
proof (cases "logged_in (session r)")
  case False
  then show ?thesis by (simp add: main_def login_db)
next
  case True
  have "db (logged_in_part env inp r) = db r"
    by (simp add: logged_in_part_def Let_def csv_upload_not_saved [OF assms(1)]
        file_processing_not_pressed [OF assms(2)] processed_leads_tab_unconfirmed [OF assms(3)])
  then show ?thesis using True by (simp add: main_def)
qed

lemma files_query_sorted: "sorted (map (\<lambda>(i, fn, s). fn) (files_query d))"
  by (simp add: files_query_def)

lemma processed_query_sorted: "sorted (rev (map l_id (processed_query d)))"
  by (simp add: processed_query_def rev_map)

text \<open>
  Claim C9. The listing of line 140 is ordered by filename, ascending, and holds the id,
  filename and status of every batch, one entry for each; the listing of line 289 is ordered
  by id, descending. \<^verbatim>\<open>read_from_postgres\<close> leaves the store, the session and the requests
  as they were, and called again on the state it left it returns the same frame. A run of
  the script in which neither the save button, nor the process button, nor the confirmation
  of the deduplication is pressed (a refresh) leaves the store unchanged, so the next
  listings are the same.
\<close>

theorem listing_is_ordered_and_repeatable:
  "sorted (map (\<lambda>(i, fn, s). fn) (files_query d))
   \<and> set (files_query d) = (\<lambda>b. (u_id b, filename b, status b)) ` set (csv_uploads d)
   \<and> length (files_query d) = length (csv_uploads d)
   \<and> sorted (rev (map l_id (processed_query d)))
   \<and> set (processed_query d) = set (processed_leads d)
   \<and> db (snd (read_from_postgres inp c query r)) = db r
   \<and> session (snd (read_from_postgres inp c query r)) = session r
   \<and> posted (snd (read_from_postgres inp c query r)) = posted r
   \<and> fst (read_from_postgres inp c query (snd (read_from_postgres inp c query r)))
       = fst (read_from_postgres inp c query r)
   \<and> (\<not> db_fails inp List_files \<longrightarrow>
        fst (read_from_postgres inp List_files files_query r) = Some (files_query (db r)))
   \<and> (\<not> save_button inp \<and> \<not> process_button inp \<and> \<not> dedupe_confirm_button inp \<longrightarrow>
        db (main env inp r) = db r
      \<and> files_query (db (main env inp r)) = files_query (db r)
      \<and> processed_query (db (main env inp r)) = processed_query (db r))"
proof -
  have keep: "\<not> save_button inp \<and> \<not> process_button inp \<and> \<not> dedupe_confirm_button inp \<longrightarrow>
        db (main env inp r) = db r
      \<and> files_query (db (main env inp r)) = files_query (db r)
      \<and> processed_query (db (main env inp r)) = processed_query (db r)"
    by (simp add: refresh_keeps_store)
  have len: "length (files_query d) = length (csv_uploads d)"
    by (simp add: files_query_def)
  have pset: "set (processed_query d) = set (processed_leads d)"
    by (simp add: processed_query_def)
  have rd: "db (snd (read_from_postgres inp c query r)) = db r"
    "session (snd (read_from_postgres inp c query r)) = session r"
    "posted (snd (read_from_postgres inp c query r)) = posted r"
    "fst (read_from_postgres inp c query (snd (read_from_postgres inp c query r)))
       = fst (read_from_postgres inp c query r)"
    by (simp_all add: read_from_postgres_def)
  have ok: "\<not> db_fails inp List_files \<longrightarrow>
        fst (read_from_postgres inp List_files files_query r) = Some (files_query (db r))"
    by (simp add: read_from_postgres_def)
  show ?thesis
    by (intro conjI files_query_sorted set_files_query len processed_query_sorted pset rd ok keep)
qed

lemma two_files_listing:
  "files_query (db two_files) = [(2, ''a.csv'', ''notstarted''), (1, ''b.csv'', ''inprogress'')]"
  by (simp add: files_query_def two_files_def fresh_run_def upload_def)

theorem listing_is_ordered_and_repeatable_witness:
  "\<not> db_fails idle List_files
   \<and> fst (read_from_postgres idle List_files files_query two_files)
       = Some [(2, ''a.csv'', ''notstarted''), (1, ''b.csv'', ''inprogress'')]
   \<and> \<not> save_button idle \<and> \<not> process_button idle \<and> \<not> dedupe_confirm_button idle
   \<and> db (main example_env idle two_files) = db two_files
   \<and> files_query (db (main example_env idle two_files))
       = [(2, ''a.csv'', ''notstarted''), (1, ''b.csv'', ''inprogress'')]"
proof -
  have h: "\<not> db_fails idle List_files" "\<not> save_button idle" "\<not> process_button idle"
    "\<not> dedupe_confirm_button idle"
    by (simp_all add: idle_def)
  note t = listing_is_ordered_and_repeatable
    [of "db two_files" idle List_files files_query two_files example_env]
  have a: "fst (read_from_postgres idle List_files files_query two_files)
       = Some [(2, ''a.csv'', ''notstarted''), (1, ''b.csv'', ''inprogress'')]"
    using t h(1) by (simp add: two_files_listing)
  have b: "db (main example_env idle two_files) = db two_files"
    using t h by blast
  have c: "files_query (db (main example_env idle two_files))
       = [(2, ''a.csv'', ''notstarted''), (1, ''b.csv'', ''inprogress'')]"
    using t h by (simp add: two_files_listing)
  show ?thesis
    by (intro conjI h a b c)
qed

section \<open>What a run can send\<close>








section \<open>The payload from registration to dispatch\<close>




end
